theory Spec2Isabelle
  imports Main
begin

section \<open>Python values\<close>

text \<open>
  The values that flow through \<^verbatim>\<open>facebook/graphy.py\<close>: what \<^verbatim>\<open>r.json()\<close> decodes
  (null, booleans, integers, strings, arrays, objects), the access tokens and the
  query-parameter values. A decoded object is an association list read with \<open>map_of\<close>;
  a decoded object has distinct keys. Floating-point numbers are not modelled.
  The semantics followed is Python 3.
\<close>

datatype pyval =
    PNone
  | PBool bool
  | PInt int
  | PStr string
  | PList "pyval list"
  | PDict "(string \<times> pyval) list"

text \<open>Exceptions raised in the modelled code, as values.\<close>

datatype error =
    IndexError
  | AttributeError
  | ValueError
  | TypeError
  | KeyError
  | RequestException

text \<open>Truth value of an object, as tested by \<^verbatim>\<open>if x\<close> and \<^verbatim>\<open>x and y\<close>.\<close>

fun truthy :: "pyval \<Rightarrow> bool" where
  "truthy PNone = False"
| "truthy (PBool b) = b"
| "truthy (PInt i) = (i \<noteq> 0)"
| "truthy (PStr s) = (s \<noteq> [])"
| "truthy (PList xs) = (xs \<noteq> [])"
| "truthy (PDict m) = (m \<noteq> [])"

text \<open>
  \<^verbatim>\<open>c.get(k, d)\<close>: only a dict has the method; on any other decoded value the
  attribute lookup raises AttributeError.
\<close>

definition py_get :: "pyval \<Rightarrow> string \<Rightarrow> pyval \<Rightarrow> error + pyval" where
  "py_get c k d =
     (case c of
        PDict m \<Rightarrow> Inr (case map_of m k of Some v \<Rightarrow> v | None \<Rightarrow> d)
      | _ \<Rightarrow> Inl AttributeError)"

text \<open>
  \<^verbatim>\<open>x == y\<close> on decoded values: \<^verbatim>\<open>True\<close> and \<^verbatim>\<open>False\<close> compare as the
  integers 1 and 0, lists compare element by element, and dicts compare as mappings
  (the same keys with equal values, whatever the order).
\<close>

function py_eq :: "pyval \<Rightarrow> pyval \<Rightarrow> bool"
  and py_eq_list :: "pyval list \<Rightarrow> pyval list \<Rightarrow> bool"
  and py_sub :: "(string \<times> pyval) list \<Rightarrow> (string \<times> pyval) list \<Rightarrow> bool" where
  "py_eq PNone y = (y = PNone)"
| "py_eq (PBool a) y =
     (case y of PBool b \<Rightarrow> a = b | PInt j \<Rightarrow> (if a then 1 else 0) = j | _ \<Rightarrow> False)"
| "py_eq (PInt i) y =
     (case y of PBool b \<Rightarrow> i = (if b then 1 else 0) | PInt j \<Rightarrow> i = j | _ \<Rightarrow> False)"
| "py_eq (PStr s) y = (y = PStr s)"
| "py_eq (PList xs) y = (case y of PList ys \<Rightarrow> py_eq_list xs ys | _ \<Rightarrow> False)"
| "py_eq (PDict a) y =
     (case y of PDict b \<Rightarrow> length a = length b \<and> py_sub a b | _ \<Rightarrow> False)"
| "py_eq_list [] ys = (ys = [])"
| "py_eq_list (x # xs) ys =
     (case ys of [] \<Rightarrow> False | y # ys' \<Rightarrow> py_eq x y \<and> py_eq_list xs ys')"
| "py_sub [] b = True"
| "py_sub (kv # a) b =
     ((case map_of b (fst kv) of None \<Rightarrow> False | Some v' \<Rightarrow> py_eq (snd kv) v') \<and> py_sub a b)"
  by pat_completeness auto
termination
  apply (relation "measure (\<lambda>x. case x of
        Inl (a, b) \<Rightarrow> size a + size b
      | Inr (Inl (xs, ys)) \<Rightarrow> size_list size xs + size_list size ys
      | Inr (Inr (a, b)) \<Rightarrow>
          size_list (size_prod (\<lambda>_. 0) size) a + size_list (size_prod (\<lambda>_. 0) size) b)")
          apply simp_all
  subgoal premises prems for kv a b v'
  proof -
    have sz: "map_of m k = Some v \<Longrightarrow> size v < Suc (size_list (size_prod (\<lambda>_. 0) size) m)"
      for m :: "(string \<times> pyval) list" and k v
      by (induction m) (auto split: if_splits)
    show ?thesis
      using prems sz [of b "fst kv" v'] by (cases kv) simp
  qed
  done

section \<open>String splitting\<close>

text \<open>\<^verbatim>\<open>s.split(c)\<close> for a one-character separator: every occurrence splits.\<close>

function split_char :: "char \<Rightarrow> string \<Rightarrow> string list" where
  "split_char c s =
     (case dropWhile (\<lambda>x. x \<noteq> c) s of
        [] \<Rightarrow> [s]
      | _ # rest \<Rightarrow> takeWhile (\<lambda>x. x \<noteq> c) s # split_char c rest)"
  by pat_completeness auto
termination
proof (relation "measure (\<lambda>(c, s). length s)")
  show "wf (measure (\<lambda>(c, s). length s))" by simp
next
  fix c :: char and s :: string and x rest
  assume d: "dropWhile (\<lambda>x. x \<noteq> c) s = x # rest"
  have "length (dropWhile (\<lambda>x. x \<noteq> c) s) \<le> length s"
    by (rule length_dropWhile_le)
  then show "((c, rest), (c, s)) \<in> measure (\<lambda>(c, s). length s)"
    using d by simp
qed

declare split_char.simps [simp del]

text \<open>\<^verbatim>\<open>s.split(c, 1)\<close>: at most one split, at the first occurrence.\<close>

definition split_once :: "char \<Rightarrow> string \<Rightarrow> string list" where
  "split_once c s =
     (case dropWhile (\<lambda>x. x \<noteq> c) s of
        [] \<Rightarrow> [s]
      | _ # rest \<Rightarrow> [takeWhile (\<lambda>x. x \<noteq> c) s, rest])"

text \<open>
  \<^verbatim>\<open>dict(pairs)\<close> over an iterable of lists: each element must have exactly two items
  (otherwise ValueError), and a later pair overwrites an earlier one with the same key.
\<close>

fun dict_of_pairs :: "string list list \<Rightarrow> (string \<rightharpoonup> string) \<Rightarrow> error + (string \<rightharpoonup> string)" where
  "dict_of_pairs [] m = Inr m"
| "dict_of_pairs (p # ps) m =
     (case p of
        [k, v] \<Rightarrow> dict_of_pairs ps (m(k \<mapsto> v))
      | _ \<Rightarrow> Inl ValueError)"

text \<open>
  \<^verbatim>\<open>c.join(xs)\<close>, the inverse of splitting: used only to write down which URLs a
  statement is about.
\<close>

fun join_char :: "char \<Rightarrow> string list \<Rightarrow> string" where
  "join_char c [] = []"
| "join_char c [x] = x"
| "join_char c (x # y # ys) = x @ c # join_char c (y # ys)"

section \<open>Cursor extractors\<close>

definition extract_query :: "string \<Rightarrow> error + (string \<rightharpoonup> string)" where
  "extract_query s =
     (case split_once CHR ''?'' s of
        [_, query] \<Rightarrow>
          dict_of_pairs (map (split_once CHR ''='') (split_char CHR ''&'' query)) Map.empty
      | _ \<Rightarrow> Inr Map.empty)"

definition extract_after :: "pyval \<Rightarrow> error + pyval" where
  "extract_after c =
     (case py_get c ''paging'' (PDict []) of
        Inl e \<Rightarrow> Inl e
      | Inr paging \<Rightarrow>
          (case py_get paging ''cursors'' (PDict []) of
             Inl e \<Rightarrow> Inl e
           | Inr cursors \<Rightarrow> py_get cursors ''after'' PNone))"

definition extract_until :: "pyval \<Rightarrow> error + pyval" where
  "extract_until c =
     (case py_get c ''paging'' (PDict []) of
        Inl e \<Rightarrow> Inl e
      | Inr paging \<Rightarrow>
          (case py_get paging ''next'' (PStr []) of
             Inl e \<Rightarrow> Inl e
           | Inr (PStr s) \<Rightarrow>
               (case extract_query s of
                  Inl e \<Rightarrow> Inl e
                | Inr q \<Rightarrow> Inr (case q ''until'' of Some v \<Rightarrow> PStr v | None \<Rightarrow> PNone))
           | Inr _ \<Rightarrow> Inl AttributeError))"

section \<open>Ramp-up policy\<close>

definition geometric_ramp_up :: "int \<Rightarrow> int \<Rightarrow> int \<Rightarrow> int" where
  "geometric_ramp_up multiplier ceiling x = min ceiling (x * multiplier)"

text \<open>
  The function returned by \<^verbatim>\<open>geometric_ramp_up\<close> applied to a parameter value:
  \<^verbatim>\<open>min(ceiling, x * multiplier)\<close>. A bool multiplies as 0 or 1; a str or list times
  an int is a str or list, which \<^verbatim>\<open>min\<close> cannot order against the int ceiling, and
  None and dicts do not multiply: TypeError.
\<close>

definition geometric_ramp_up_value :: "int \<Rightarrow> int \<Rightarrow> pyval \<Rightarrow> error + pyval" where
  "geometric_ramp_up_value multiplier ceiling v =
     (case v of
        PInt x \<Rightarrow> Inr (PInt (geometric_ramp_up multiplier ceiling x))
      | PBool b \<Rightarrow> Inr (PInt (geometric_ramp_up multiplier ceiling (if b then 1 else 0)))
      | _ \<Rightarrow> Inl TypeError)"

section \<open>Pagination engine\<close>

text \<open>
  Dict objects live in a store, addressed by position, so that two references to one
  dict see each other's writes. A parameter dict maps names to values.
\<close>

type_synonym addr = nat
type_synonym pdict = "string \<rightharpoonup> pyval"
type_synonym store = "pdict list"

definition dict_get :: "pdict \<Rightarrow> string \<Rightarrow> pyval" where
  "dict_get d k = (case d k of Some v \<Rightarrow> v | None \<Rightarrow> PNone)"

text \<open>
  The HTTP side. A request is the endpoint with the parameters as they are when the
  request is sent. What \<^verbatim>\<open>requests.get\<close> returns is decided by the server from the
  whole history of requests (the latest last): either an exception or a response.
  Of a response the engine reads \<^verbatim>\<open>status_code\<close>, \<^verbatim>\<open>text\<close> and \<^verbatim>\<open>json()\<close>, the latter
  \<open>None\<close> when decoding raises.
\<close>

type_synonym request = "string \<times> pdict"

record response =
  status_code :: int
  rtext :: string
  json :: "pyval option"

type_synonym server = "request list \<Rightarrow> error + response"

definition parse_response :: "response \<Rightarrow> pyval" where
  "parse_response r =
     (case json r of
        Some v \<Rightarrow> v
      | None \<Rightarrow> PDict [(''error'', PStr (rtext r))])"

text \<open>
  The page envelope \<^verbatim>\<open>dict(content=..., status=..., endpoint=..., parameters=params)\<close>.
  Its \<^verbatim>\<open>parameters\<close> entry is the object \<^verbatim>\<open>params\<close> itself, hence an address.
\<close>

record envelope =
  page_content :: pyval
  page_status :: int
  page_endpoint :: string
  page_parameters :: addr

text \<open>The arguments of \<^verbatim>\<open>paginate\<close>; \<^verbatim>\<open>parameters\<close> refers to the caller's dict.\<close>

record call =
  endpoint :: string
  parameters :: addr
  tokens :: "pyval list"
  cursor_key :: string
  cursor_extractor :: "pyval \<Rightarrow> error + pyval"
  ramp_up :: "pyval \<Rightarrow> error + pyval"

text \<open>
  What can be observed of a run: the store, the requests sent so far and the envelopes
  yielded so far.
\<close>

record world =
  heap :: store
  sent :: "request list"
  yielded :: "envelope list"

text \<open>
  The generator's control state with its locals \<^verbatim>\<open>params\<close>, \<^verbatim>\<open>queue\<close> and \<^verbatim>\<open>content\<close>:
  not yet started; at the top of the loop; suspended at the \<^verbatim>\<open>yield\<close>; returned;
  terminated by an exception.
\<close>

datatype gen =
    Created
  | Requesting addr "pyval list"
  | Extracting addr "pyval list" pyval
  | Done
  | Failed error

text \<open>From the top of the loop to the \<^verbatim>\<open>yield\<close>.\<close>

definition request_page :: "call \<Rightarrow> server \<Rightarrow> addr \<Rightarrow> pyval list \<Rightarrow> world \<Rightarrow> gen \<times> world" where
  "request_page a srv params queue w =
     (case queue of
        [] \<Rightarrow> (Failed IndexError, w)
      | t # queue' \<Rightarrow>
          let h = (heap w)[params := (heap w ! params)(''access_token'' \<mapsto> t)];
              s = sent w @ [(endpoint a, h ! params)]
          in (case srv s of
                Inl e \<Rightarrow> (Failed e, w\<lparr>heap := h, sent := s\<rparr>)
              | Inr response \<Rightarrow>
                  let content = parse_response response
                  in (Extracting params queue' content,
                      w\<lparr>heap := h, sent := s,
                        yielded := yielded w @
                          [\<lparr>page_content = content, page_status = status_code response,
                            page_endpoint = endpoint a, page_parameters = params\<rparr>]\<rparr>)))"

text \<open>From the \<^verbatim>\<open>yield\<close> to the top of the loop, or out of it.\<close>

definition continue_page :: "call \<Rightarrow> addr \<Rightarrow> pyval list \<Rightarrow> pyval \<Rightarrow> world \<Rightarrow> gen \<times> world" where
  "continue_page a params queue content w =
     (case cursor_extractor a content of
        Inl e \<Rightarrow> (Failed e, w)
      | Inr cursor \<Rightarrow>
          (case py_get content ''data'' (PList []) of
             Inl e \<Rightarrow> (Failed e, w)
           | Inr data \<Rightarrow>
               if truthy data \<and> truthy cursor
                  \<and> \<not> py_eq cursor (dict_get (heap w ! params) (cursor_key a))
               then
                 (case (heap w ! params) ''access_token'' of
                    None \<Rightarrow> (Failed KeyError, w)
                  | Some t \<Rightarrow>
                      let queue' = queue @ [t];
                          d = (heap w ! params)(cursor_key a \<mapsto> cursor)
                      in (case d ''limit'' of
                            None \<Rightarrow> (Requesting params queue', w\<lparr>heap := (heap w)[params := d]\<rparr>)
                          | Some l \<Rightarrow>
                              (case ramp_up a l of
                                 Inl e \<Rightarrow> (Failed e, w\<lparr>heap := (heap w)[params := d]\<rparr>)
                               | Inr l' \<Rightarrow>
                                   (Requesting params queue',
                                    w\<lparr>heap := (heap w)[params := d(''limit'' \<mapsto> l')]\<rparr>))))
               else (Done, w)))"

text \<open>
  One step of the generator. The first step runs \<^verbatim>\<open>params = dict(parameters)\<close>, which
  allocates a new dict with the caller's entries, and \<^verbatim>\<open>queue = deque(tokens)\<close>.
\<close>

fun step :: "call \<Rightarrow> server \<Rightarrow> gen \<times> world \<Rightarrow> gen \<times> world" where
  "step a srv (Created, w) =
     (Requesting (length (heap w)) (tokens a), w\<lparr>heap := heap w @ [heap w ! parameters a]\<rparr>)"
| "step a srv (Requesting params queue, w) = request_page a srv params queue w"
| "step a srv (Extracting params queue content, w) = continue_page a params queue content w"
| "step a srv (Done, w) = (Done, w)"
| "step a srv (Failed e, w) = (Failed e, w)"

text \<open>
  \<^verbatim>\<open>paginate\<close>: the generator over store \<open>h\<close> after \<open>n\<close> steps. The consumer of the
  envelopes only reads them.
\<close>

definition paginate :: "call \<Rightarrow> server \<Rightarrow> store \<Rightarrow> nat \<Rightarrow> gen \<times> world" where
  "paginate a srv h n = (step a srv ^^ n) (Created, \<lparr>heap = h, sent = [], yielded = []\<rparr>)"

definition paginate_cursors ::
  "string \<Rightarrow> addr \<Rightarrow> pyval list \<Rightarrow> (pyval \<Rightarrow> error + pyval) \<Rightarrow> server \<Rightarrow> store \<Rightarrow> nat \<Rightarrow> gen \<times> world" where
  "paginate_cursors e ps ts r =
     paginate \<lparr>endpoint = e, parameters = ps, tokens = ts, cursor_key = ''after'',
       cursor_extractor = extract_after, ramp_up = r\<rparr>"

definition paginate_dates ::
  "string \<Rightarrow> addr \<Rightarrow> pyval list \<Rightarrow> (pyval \<Rightarrow> error + pyval) \<Rightarrow> server \<Rightarrow> store \<Rightarrow> nat \<Rightarrow> gen \<times> world" where
  "paginate_dates e ps ts r =
     paginate \<lparr>endpoint = e, parameters = ps, tokens = ts, cursor_key = ''until'',
       cursor_extractor = extract_until, ramp_up = r\<rparr>"

text \<open>
  What a holder of an envelope reads under its \<^verbatim>\<open>parameters\<close> key, in a given world.
\<close>

definition seen_parameters :: "world \<Rightarrow> envelope \<Rightarrow> pdict" where
  "seen_parameters w e = heap w ! page_parameters e"

section \<open>Reachable states\<close>

text \<open>
  What holds of every state the generator reaches from a call on store \<open>h0\<close>: the
  objects that existed before the call are as they were and \<^verbatim>\<open>params\<close> is the one dict
  allocated after them; the \<open>i\<close>-th request went to the endpoint with the \<open>i\<close>-th token
  of the rotation; every envelope refers to \<^verbatim>\<open>params\<close>; at the top of the loop the queue
  is the token list rotated once per request sent; at the \<^verbatim>\<open>yield\<close> the token of the
  last request is missing from the front of the queue and stored in \<^verbatim>\<open>params\<close>, and
  \<^verbatim>\<open>params\<close> is what the last request carried.
\<close>

definition run_inv :: "call \<Rightarrow> store \<Rightarrow> gen \<times> world \<Rightarrow> bool" where
  "run_inv a h0 c =
     (case c of (g, w) \<Rightarrow>
        (g = Created \<longrightarrow> heap w = h0 \<and> sent w = [] \<and> yielded w = [])
      \<and> (g \<noteq> Created \<longrightarrow> length (heap w) = Suc (length h0) \<and> take (length h0) (heap w) = h0)
      \<and> (\<forall>i<length (sent w). fst (sent w ! i) = endpoint a
            \<and> snd (sent w ! i) ''access_token'' = Some (tokens a ! (i mod length (tokens a))))
      \<and> (sent w \<noteq> [] \<longrightarrow> tokens a \<noteq> [])
      \<and> (\<forall>e\<in>set (yielded w). page_parameters e = length h0 \<and> page_endpoint e = endpoint a)
      \<and> length (yielded w) \<le> length (sent w)
      \<and> (case g of
            Requesting p q \<Rightarrow> p = length h0 \<and> q = rotate (length (sent w)) (tokens a)
          | Extracting p q c \<Rightarrow>
              p = length h0 \<and> sent w \<noteq> [] \<and> yielded w \<noteq> []
              \<and> q = tl (rotate (length (sent w) - 1) (tokens a))
              \<and> (heap w ! p) ''access_token'' = Some (hd (rotate (length (sent w) - 1) (tokens a)))
              \<and> snd (last (sent w)) = heap w ! p
              \<and> page_content (last (yielded w)) = c
          | _ \<Rightarrow> True))"

section \<open>A two-page run\<close>

text \<open>
  A server that answers the first request with one item and the cursor \<open>C1\<close>, and every
  later request with an empty page; a call of \<^verbatim>\<open>paginate_cursors\<close> with the tokens
  \<open>A\<close> and \<open>B\<close>, the limit 25 and the ramp-up \<open>geometric_ramp_up 2 3000\<close>.
\<close>

definition fixture_page1 :: pyval where
  "fixture_page1 =
     PDict [(''data'', PList [PDict [(''id'', PStr ''1'')]]),
            (''paging'', PDict [(''cursors'', PDict [(''after'', PStr ''C1'')])])]"

definition fixture_page2 :: pyval where
  "fixture_page2 = PDict [(''data'', PList [])]"

definition fixture_server :: server where
  "fixture_server s =
     Inr \<lparr>status_code = 200, rtext = [],
          json = Some (if length s = 1 then fixture_page1 else fixture_page2)\<rparr>"

definition fixture_store :: store where
  "fixture_store = [[''limit'' \<mapsto> PInt 25]]"

definition fixture_call :: call where
  "fixture_call =
     \<lparr>endpoint = ''https://graph/1/likes'', parameters = 0,
      tokens = [PStr ''A'', PStr ''B''], cursor_key = ''after'',
      cursor_extractor = extract_after, ramp_up = geometric_ramp_up_value 2 3000\<rparr>"

text \<open>
  More servers: one whose every page has an item and a new cursor, one whose body is not
  JSON, one that always answers with the first page (the same cursor again), and one
  whose body is a JSON array.
\<close>

definition fixture_endless :: server where
  "fixture_endless s =
     Inr \<lparr>status_code = 200, rtext = [],
          json = Some (PDict [(''data'', PList [PInt 1]),
            (''paging'', PDict [(''cursors'',
               PDict [(''after'', PStr (replicate (length s) CHR ''c''))])])])\<rparr>"

definition fixture_broken :: server where
  "fixture_broken s = Inr \<lparr>status_code = 429, rtext = ''Too Many Requests'', json = None\<rparr>"

definition fixture_stuck :: server where
  "fixture_stuck s = Inr \<lparr>status_code = 200, rtext = [], json = Some fixture_page1\<rparr>"

definition fixture_array :: server where
  "fixture_array s = Inr \<lparr>status_code = 200, rtext = [], json = Some (PList [PInt 1])\<rparr>"

text \<open>A server whose page has an item and the empty string as its cursor.\<close>

definition fixture_blank_page :: pyval where
  "fixture_blank_page =
     PDict [(''data'', PList [PInt 1]),
            (''paging'', PDict [(''cursors'', PDict [(''after'', PStr [])])])]"

definition fixture_blank :: server where
  "fixture_blank s = Inr \<lparr>status_code = 200, rtext = [], json = Some fixture_blank_page\<rparr>"

section \<open>Properties of the ramp-up policy\<close>

lemma ramp_iterate:
  assumes "1 \<le> m" and "0 \<le> c"
  shows "(geometric_ramp_up m c ^^ Suc n) x = min c (x * m ^ Suc n)"
proof (induction n)
  case 0
  show ?case by (simp add: geometric_ramp_up_def)
next
  case (Suc n)
  have cm: "c \<le> c * m"
    using assms by (simp add: mult_le_cancel_left1)
  have "(geometric_ramp_up m c ^^ Suc (Suc n)) x
          = geometric_ramp_up m c ((geometric_ramp_up m c ^^ Suc n) x)"
    by simp
  also have "\<dots> = min c (min c (x * m ^ Suc n) * m)"
    unfolding Suc.IH by (simp add: geometric_ramp_up_def)
  also have "min c (x * m ^ Suc n) * m = min (c * m) (x * m ^ Suc n * m)"
    using assms by (simp add: min_mult_distrib_right)
  also have "min c (min (c * m) (x * m ^ Suc n * m)) = min c (x * m ^ Suc n * m)"
    using cm by linarith
  also have "x * m ^ Suc n * m = x * m ^ Suc (Suc n)"
    by (simp add: ac_simps)
  finally show ?case .
qed

lemma ramp_bounded: "x \<le> c \<Longrightarrow> (geometric_ramp_up m c ^^ n) x \<le> c"
  by (cases n) (simp_all add: geometric_ramp_up_def)

lemma power_exceeds:
  assumes "2 \<le> (m::int)"
  shows "int n < m ^ n"
proof (induction n)
  case 0
  show ?case by simp
next
  case (Suc n)
  have p: "0 < m ^ n" using assms by simp
  have "int (Suc n) \<le> m ^ n" using Suc by simp
  also have "m ^ n < m ^ n * m" using p assms by simp
  finally show ?case by (simp add: mult.commute)
qed

lemma ramp_saturates:
  assumes m: "2 \<le> m" and x: "0 < x" and c: "x \<le> c"
  shows "\<exists>n. \<forall>k\<ge>n. (geometric_ramp_up m c ^^ k) x = c"
proof (intro exI allI impI)
  fix k assume k: "nat c \<le> k"
  have kpos: "0 < k" using k x c by linarith
  then obtain j where j: "k = Suc j" by (cases k) auto
  have "c \<le> int k" using k by linarith
  also have "int k < m ^ k" using m by (rule power_exceeds)
  finally have "c < m ^ k" .
  moreover have "m ^ k \<le> x * m ^ k"
    using x m by (simp add: mult_le_cancel_right1)
  ultimately have "c \<le> x * m ^ k" by linarith
  moreover have "(geometric_ramp_up m c ^^ k) x = min c (x * m ^ k)"
    unfolding j using m x c by (intro ramp_iterate) auto
  ultimately show "(geometric_ramp_up m c ^^ k) x = c" by simp
qed

text \<open>
  C4. The geometric ramp-up policy computes \<open>min ceiling (current * multiplier)\<close> for
  every integer; with multiplier 2 and ceiling 3000 it maps 25 to 50; started at or
  below the ceiling, no number of repeated applications exceeds the ceiling; and with a
  multiplier of at least 2 and a positive start it reaches the ceiling after finitely
  many applications and stays there.
\<close>

theorem geometric_ramp_up_saturating:
  "geometric_ramp_up m c x = min c (x * m)
   \<and> geometric_ramp_up 2 3000 25 = 50
   \<and> (x \<le> c \<longrightarrow> (\<forall>n. (geometric_ramp_up m c ^^ n) x \<le> c))
   \<and> (2 \<le> m \<and> 0 < x \<and> x \<le> c \<longrightarrow> (\<exists>n. \<forall>k\<ge>n. (geometric_ramp_up m c ^^ k) x = c))"
proof (intro conjI impI allI)
  show "geometric_ramp_up m c x = min c (x * m)"
    by (simp add: geometric_ramp_up_def)
  show "geometric_ramp_up 2 3000 25 = 50"
    by (simp add: geometric_ramp_up_def)
next
  fix n assume "x \<le> c"
  then show "(geometric_ramp_up m c ^^ n) x \<le> c" by (rule ramp_bounded)
next
  assume "2 \<le> m \<and> 0 < x \<and> x \<le> c"
  then show "\<exists>n. \<forall>k\<ge>n. (geometric_ramp_up m c ^^ k) x = c"
    by (intro ramp_saturates) auto
qed

theorem geometric_ramp_up_saturating_witness:
  "(25::int) \<le> 3000 \<and> (2::int) \<le> 2 \<and> (0::int) < 25
   \<and> (geometric_ramp_up 2 3000 ^^ 3) 25 \<le> 3000
   \<and> (\<exists>n. \<forall>k\<ge>n. (geometric_ramp_up 2 3000 ^^ k) 25 = 3000)"
  using geometric_ramp_up_saturating [of 2 3000 25] by simp

section \<open>Properties of the cursor extractors\<close>

lemma split_once_absent: "c \<notin> set s \<Longrightarrow> split_once c s = [s]"
proof -
  assume "c \<notin> set s"
  then have d: "dropWhile (\<lambda>x. x \<noteq> c) s = []" by (auto simp: dropWhile_eq_Nil_conv)
  show ?thesis by (simp add: split_once_def d)
qed

lemma split_once_first: "c \<notin> set x \<Longrightarrow> split_once c (x @ c # r) = [x, r]"
proof -
  assume a: "c \<notin> set x"
  then have d: "dropWhile (\<lambda>y. y \<noteq> c) (x @ c # r) = c # r"
    by (subst dropWhile_append2) auto
  from a have t: "takeWhile (\<lambda>y. y \<noteq> c) (x @ c # r) = x"
    by (subst takeWhile_append2) auto
  show ?thesis by (simp add: split_once_def d t)
qed

lemma split_char_absent: "c \<notin> set s \<Longrightarrow> split_char c s = [s]"
proof -
  assume "c \<notin> set s"
  then have d: "dropWhile (\<lambda>x. x \<noteq> c) s = []" by (auto simp: dropWhile_eq_Nil_conv)
  show ?thesis by (subst split_char.simps) (simp add: d)
qed

lemma split_char_first: "c \<notin> set x \<Longrightarrow> split_char c (x @ c # r) = x # split_char c r"
proof -
  assume a: "c \<notin> set x"
  then have d: "dropWhile (\<lambda>y. y \<noteq> c) (x @ c # r) = c # r"
    by (subst dropWhile_append2) auto
  from a have t: "takeWhile (\<lambda>y. y \<noteq> c) (x @ c # r) = x"
    by (subst takeWhile_append2) auto
  show ?thesis by (subst split_char.simps) (simp add: d t)
qed

lemma split_char_join:
  "xs \<noteq> [] \<Longrightarrow> \<forall>x\<in>set xs. c \<notin> set x \<Longrightarrow> split_char c (join_char c xs) = xs"
proof (induction c xs rule: join_char.induct)
  case (1 c)
  then show ?case by simp
next
  case (2 c x)
  then show ?case by (simp add: split_char_absent)
next
  case (3 c x y ys)
  then show ?case by (simp add: split_char_first)
qed

lemma dict_of_pairs_short:
  "\<exists>p\<in>set ps. length p \<noteq> 2 \<Longrightarrow> dict_of_pairs ps m = Inl ValueError"
proof (induction ps arbitrary: m)
  case Nil
  then show ?case by simp
next
  case (Cons p ps)
  show ?case
  proof (cases "length p = 2")
    case True
    then obtain k v where p: "p = [k, v]"
      by (cases p; cases "tl p"; cases "tl (tl p)") auto
    with Cons show ?thesis by auto
  next
    case False
    then show ?thesis by (auto split: list.splits)
  qed
qed

lemma dict_of_pairs_full:
  "dict_of_pairs (map (\<lambda>(k, v). [k, v]) kvs) m = Inr (m ++ map_of (rev kvs))"
proof (induction kvs arbitrary: m)
  case Nil
  show ?case by simp
next
  case (Cons kv kvs)
  obtain k v where kv: "kv = (k, v)" by (cases kv)
  have "dict_of_pairs (map (\<lambda>(k, v). [k, v]) (kv # kvs)) m
          = dict_of_pairs (map (\<lambda>(k, v). [k, v]) kvs) (m(k \<mapsto> v))"
    by (simp add: kv)
  also have "\<dots> = Inr (m(k \<mapsto> v) ++ map_of (rev kvs))"
    by (rule Cons.IH)
  also have "m(k \<mapsto> v) ++ map_of (rev kvs) = m ++ map_of (rev (kv # kvs))"
    by (rule ext) (simp add: kv map_add_def split: option.splits)
  finally show ?case .
qed

lemma extract_query_no_mark: "CHR ''?'' \<notin> set s \<Longrightarrow> extract_query s = Inr Map.empty"
  by (simp add: extract_query_def split_once_absent)

lemma extract_query_pairs:
  assumes "CHR ''?'' \<notin> set pre" and "kvs \<noteq> []"
    and "\<forall>(k, v)\<in>set kvs. CHR ''='' \<notin> set k \<and> CHR ''&'' \<notin> set k \<and> CHR ''&'' \<notin> set v"
  shows "extract_query (pre @ CHR ''?'' # join_char CHR ''&'' (map (\<lambda>(k, v). k @ CHR ''='' # v) kvs))
         = Inr (map_of (rev kvs))"
proof -
  let ?comps = "map (\<lambda>(k, v). k @ CHR ''='' # v) kvs"
  have amp: "\<forall>x\<in>set ?comps. CHR ''&'' \<notin> set x"
    using assms(3) by auto
  have sp: "split_char CHR ''&'' (join_char CHR ''&'' ?comps) = ?comps"
    using assms(2) amp by (intro split_char_join) auto
  have eq: "map (split_once CHR ''='') ?comps = map (\<lambda>(k, v). [k, v]) kvs"
    using assms(3) by (auto simp: split_once_first)
  have "extract_query (pre @ CHR ''?'' # join_char CHR ''&'' ?comps)
          = dict_of_pairs (map (split_once CHR ''='') ?comps) Map.empty"
    by (simp only: extract_query_def split_once_first [OF assms(1)] sp list.case)
  also have "\<dots> = Inr (Map.empty ++ map_of (rev kvs))"
    unfolding eq by (rule dict_of_pairs_full)
  finally show ?thesis by simp
qed

lemma extract_query_bare:
  assumes "CHR ''?'' \<notin> set pre" and "comps \<noteq> []"
    and "\<forall>x\<in>set comps. CHR ''&'' \<notin> set x"
    and "\<exists>x\<in>set comps. CHR ''='' \<notin> set x"
  shows "extract_query (pre @ CHR ''?'' # join_char CHR ''&'' comps) = Inl ValueError"
proof -
  have sp: "split_char CHR ''&'' (join_char CHR ''&'' comps) = comps"
    using assms(2,3) by (intro split_char_join) auto
  obtain x where x: "x \<in> set comps" "CHR ''='' \<notin> set x"
    using assms(4) by blast
  then have "length (split_once CHR ''='' x) \<noteq> 2"
    by (simp add: split_once_absent)
  with x(1) have "\<exists>p\<in>set (map (split_once CHR ''='') comps). length p \<noteq> 2"
    by auto
  then have "dict_of_pairs (map (split_once CHR ''='') comps) Map.empty = Inl ValueError"
    by (rule dict_of_pairs_short)
  moreover have "extract_query (pre @ CHR ''?'' # join_char CHR ''&'' comps)
          = dict_of_pairs (map (split_once CHR ''='') comps) Map.empty"
    by (simp only: extract_query_def split_once_first [OF assms(1)] sp list.case)
  ultimately show ?thesis by simp
qed

lemma extract_until_next:
  assumes "map_of c ''paging'' = Some (PDict p)" and "map_of p ''next'' = Some (PStr s)"
  shows "extract_until (PDict c) =
         (case extract_query s of
            Inl e \<Rightarrow> Inl e
          | Inr q \<Rightarrow> Inr (case q ''until'' of Some v \<Rightarrow> PStr v | None \<Rightarrow> PNone))"
  using assms by (simp add: extract_until_def py_get_def)

lemma extract_until_no_paging:
  "map_of c ''paging'' = None \<Longrightarrow> extract_until (PDict c) = Inr PNone"
  by (simp add: extract_until_def py_get_def extract_query_no_mark)

text \<open>
  C6. On a decoded response body, the cursor-style extractor returns the value stored at
  \<open>paging.cursors.after\<close> when all three levels are present, and None when \<open>paging\<close>
  is absent from the body, when \<open>cursors\<close> is absent from the paging mapping, or when
  \<open>after\<close> is absent from the cursors mapping. For
  \<open>{paging: {cursors: {after: "X"}}}\<close> it returns \<open>"X"\<close>, and for \<open>{}\<close> None.
\<close>

theorem extract_after_levels:
  "(map_of c ''paging'' = Some (PDict p) \<and> map_of p ''cursors'' = Some (PDict cs)
      \<and> map_of cs ''after'' = Some v \<longrightarrow> extract_after (PDict c) = Inr v)
   \<and> (map_of c ''paging'' = None \<longrightarrow> extract_after (PDict c) = Inr PNone)
   \<and> (map_of c ''paging'' = Some (PDict p) \<and> map_of p ''cursors'' = None
      \<longrightarrow> extract_after (PDict c) = Inr PNone)
   \<and> (map_of c ''paging'' = Some (PDict p) \<and> map_of p ''cursors'' = Some (PDict cs)
      \<and> map_of cs ''after'' = None \<longrightarrow> extract_after (PDict c) = Inr PNone)
   \<and> extract_after (PDict [(''paging'', PDict [(''cursors'', PDict [(''after'', PStr ''X'')])])])
       = Inr (PStr ''X'')
   \<and> extract_after (PDict []) = Inr PNone"
  by (simp add: extract_after_def py_get_def)

theorem extract_after_levels_witness:
  "extract_after (PDict [(''data'', PList []),
      (''paging'', PDict [(''cursors'', PDict [(''before'', PStr ''P''), (''after'', PStr ''Q'')])])])
     = Inr (PStr ''Q'')
   \<and> extract_after (PDict [(''data'', PList [])]) = Inr PNone
   \<and> extract_after (PDict [(''paging'', PDict [(''next'', PStr ''u'')])]) = Inr PNone
   \<and> extract_after (PDict [(''paging'', PDict [(''cursors'', PDict [(''before'', PStr ''P'')])])])
     = Inr PNone"
proof (intro conjI)
  show "extract_after (PDict [(''data'', PList []),
      (''paging'', PDict [(''cursors'', PDict [(''before'', PStr ''P''), (''after'', PStr ''Q'')])])])
     = Inr (PStr ''Q'')"
    using extract_after_levels
      [of "[(''data'', PList []),
            (''paging'', PDict [(''cursors'', PDict [(''before'', PStr ''P''), (''after'', PStr ''Q'')])])]"
          "[(''cursors'', PDict [(''before'', PStr ''P''), (''after'', PStr ''Q'')])]"
          "[(''before'', PStr ''P''), (''after'', PStr ''Q'')]" "PStr ''Q''"]
    by simp
  show "extract_after (PDict [(''data'', PList [])]) = Inr PNone"
    using extract_after_levels [of "[(''data'', PList [])]"] by simp
  show "extract_after (PDict [(''paging'', PDict [(''next'', PStr ''u'')])]) = Inr PNone"
    using extract_after_levels
      [of "[(''paging'', PDict [(''next'', PStr ''u'')])]" "[(''next'', PStr ''u'')]"]
    by simp
  show "extract_after (PDict [(''paging'', PDict [(''cursors'', PDict [(''before'', PStr ''P'')])])])
     = Inr PNone"
    using extract_after_levels
      [of "[(''paging'', PDict [(''cursors'', PDict [(''before'', PStr ''P'')])])]"
          "[(''cursors'', PDict [(''before'', PStr ''P'')])]" "[(''before'', PStr ''P'')]"]
    by simp
qed

text \<open>
  C10. The date-style extractor is not total. Whenever \<open>paging.next\<close> is a string with a
  \<open>?\<close> whose query part, cut at each \<open>&\<close>, has a component without \<open>=\<close>, building the
  dict in \<open>extract_query\<close> raises ValueError, and so does \<open>extract_until\<close>; in
  particular for the URL \<open>https://x?flag\<close>.
\<close>

theorem extract_until_raises:
  "(CHR ''?'' \<notin> set pre \<and> comps \<noteq> [] \<and> (\<forall>x\<in>set comps. CHR ''&'' \<notin> set x)
      \<and> (\<exists>x\<in>set comps. CHR ''='' \<notin> set x)
      \<and> map_of c ''paging'' = Some (PDict p)
      \<and> map_of p ''next'' = Some (PStr (pre @ CHR ''?'' # join_char CHR ''&'' comps))
    \<longrightarrow> extract_query (pre @ CHR ''?'' # join_char CHR ''&'' comps) = Inl ValueError
        \<and> extract_until (PDict c) = Inl ValueError)
   \<and> extract_query ''https://x?flag'' = Inl ValueError
   \<and> extract_until (PDict [(''paging'', PDict [(''next'', PStr ''https://x?flag'')])])
       = Inl ValueError"
proof (intro conjI impI)
  assume h: "CHR ''?'' \<notin> set pre \<and> comps \<noteq> [] \<and> (\<forall>x\<in>set comps. CHR ''&'' \<notin> set x)
      \<and> (\<exists>x\<in>set comps. CHR ''='' \<notin> set x)
      \<and> map_of c ''paging'' = Some (PDict p)
      \<and> map_of p ''next'' = Some (PStr (pre @ CHR ''?'' # join_char CHR ''&'' comps))"
  then show q: "extract_query (pre @ CHR ''?'' # join_char CHR ''&'' comps) = Inl ValueError"
    by (intro extract_query_bare) auto
  from h show "extract_until (PDict c) = Inl ValueError"
    by (simp add: extract_until_next [of c p] q)
next
  have "extract_query (''https://x'' @ CHR ''?'' # join_char CHR ''&'' [''flag'']) = Inl ValueError"
    by (rule extract_query_bare) simp_all
  then show q: "extract_query ''https://x?flag'' = Inl ValueError" by simp
  show "extract_until (PDict [(''paging'', PDict [(''next'', PStr ''https://x?flag'')])])
       = Inl ValueError"
    by (simp add: extract_until_next [of _ "[(''next'', PStr ''https://x?flag'')]"] q)
qed

theorem extract_until_raises_witness:
  "CHR ''?'' \<notin> set ''https://x'' \<and> CHR ''&'' \<notin> set ''until=5''
   \<and> CHR ''&'' \<notin> set ''flag'' \<and> CHR ''='' \<notin> set ''flag''
   \<and> extract_query ''https://x?until=5&flag'' = Inl ValueError
   \<and> extract_until (PDict [(''data'', PList []),
         (''paging'', PDict [(''next'', PStr ''https://x?until=5&flag'')])]) = Inl ValueError"
  using extract_until_raises
    [of "''https://x''" "[''until=5'', ''flag'']"
        "[(''data'', PList []), (''paging'', PDict [(''next'', PStr ''https://x?until=5&flag'')])]"
        "[(''next'', PStr ''https://x?until=5&flag'')]"]
  by simp

text \<open>
  C5. The date-style extractor returns \<open>"123"\<close> for
  \<open>{paging: {next: "https://x?until=123&limit=25"}}\<close>, and None for
  \<open>{paging: {next: ""}}\<close> and for a body without \<open>paging\<close>. The query string is what
  follows the first \<open>?\<close> (a URL without \<open>?\<close> gives the empty mapping); it is cut at
  every \<open>&\<close> and each component at its first \<open>=\<close>, so that a value may itself contain
  \<open>=\<close> or \<open>?\<close>; of several components with the same key the last one wins; values are
  returned as they stand in the URL, without URL-decoding.
\<close>

theorem extract_until_query:
  "extract_until (PDict [(''paging'', PDict [(''next'', PStr ''https://x?until=123&limit=25'')])])
     = Inr (PStr ''123'')
   \<and> extract_until (PDict [(''paging'', PDict [(''next'', PStr [])])]) = Inr PNone
   \<and> (map_of c ''paging'' = None \<longrightarrow> extract_until (PDict c) = Inr PNone)
   \<and> (CHR ''?'' \<notin> set s \<longrightarrow> extract_query s = Inr Map.empty)
   \<and> (CHR ''?'' \<notin> set pre \<and> kvs \<noteq> []
       \<and> (\<forall>(k, v)\<in>set kvs. CHR ''='' \<notin> set k \<and> CHR ''&'' \<notin> set k \<and> CHR ''&'' \<notin> set v)
      \<longrightarrow> extract_query (pre @ CHR ''?'' # join_char CHR ''&'' (map (\<lambda>(k, v). k @ CHR ''='' # v) kvs))
            = Inr (map_of (rev kvs))
        \<and> (map_of d ''paging'' = Some (PDict p)
             \<and> map_of p ''next'' = Some (PStr
                   (pre @ CHR ''?'' # join_char CHR ''&'' (map (\<lambda>(k, v). k @ CHR ''='' # v) kvs)))
            \<longrightarrow> extract_until (PDict d)
                  = Inr (case map_of (rev kvs) ''until'' of Some v \<Rightarrow> PStr v | None \<Rightarrow> PNone)))"
proof (intro conjI impI)
  have "extract_query (''https://x'' @ CHR ''?'' # join_char CHR ''&''
          (map (\<lambda>(k, v). k @ CHR ''='' # v) [(''until'', ''123''), (''limit'', ''25'')]))
        = Inr (map_of (rev [(''until'', ''123''), (''limit'', ''25'')]))"
    by (rule extract_query_pairs) simp_all
  then have q: "extract_query ''https://x?until=123&limit=25''
        = Inr (map_of (rev [(''until'', ''123''), (''limit'', ''25'')]))"
    by simp
  show "extract_until (PDict [(''paging'', PDict [(''next'', PStr ''https://x?until=123&limit=25'')])])
     = Inr (PStr ''123'')"
    by (simp add: extract_until_next
        [of _ "[(''next'', PStr ''https://x?until=123&limit=25'')]"] q)
  show "extract_until (PDict [(''paging'', PDict [(''next'', PStr [])])]) = Inr PNone"
    by (simp add: extract_until_next [of _ "[(''next'', PStr [])]"] extract_query_no_mark)
next
  assume "map_of c ''paging'' = None"
  then show "extract_until (PDict c) = Inr PNone" by (rule extract_until_no_paging)
next
  assume "CHR ''?'' \<notin> set s"
  then show "extract_query s = Inr Map.empty" by (rule extract_query_no_mark)
next
  assume h: "CHR ''?'' \<notin> set pre \<and> kvs \<noteq> []
       \<and> (\<forall>(k, v)\<in>set kvs. CHR ''='' \<notin> set k \<and> CHR ''&'' \<notin> set k \<and> CHR ''&'' \<notin> set v)"
  then show q: "extract_query
        (pre @ CHR ''?'' # join_char CHR ''&'' (map (\<lambda>(k, v). k @ CHR ''='' # v) kvs))
      = Inr (map_of (rev kvs))"
    by (intro extract_query_pairs) auto
  assume "map_of d ''paging'' = Some (PDict p)
       \<and> map_of p ''next'' = Some (PStr
             (pre @ CHR ''?'' # join_char CHR ''&'' (map (\<lambda>(k, v). k @ CHR ''='' # v) kvs)))"
  then show "extract_until (PDict d)
      = Inr (case map_of (rev kvs) ''until'' of Some v \<Rightarrow> PStr v | None \<Rightarrow> PNone)"
    by (simp add: extract_until_next [of d p] q)
qed

theorem extract_until_query_witness:
  "extract_until (PDict [(''data'', PList [])]) = Inr PNone
   \<and> extract_query ''https://x/feed'' = Inr Map.empty
   \<and> extract_until (PDict [(''paging'', PDict [(''next'',
         PStr ''https://x?q=a?b&until=1%202&limit=25&until=a=b'')])]) = Inr (PStr ''a=b'')"
proof (intro conjI)
  show "extract_until (PDict [(''data'', PList [])]) = Inr PNone"
    using extract_until_query [of "[(''data'', PList [])]"] by simp
  show "extract_query ''https://x/feed'' = Inr Map.empty"
    using extract_until_query [of _ "''https://x/feed''"] by simp
  show "extract_until (PDict [(''paging'', PDict [(''next'',
         PStr ''https://x?q=a?b&until=1%202&limit=25&until=a=b'')])]) = Inr (PStr ''a=b'')"
    using extract_until_query
      [of _ _ "''https://x''"
          "[(''q'', ''a?b''), (''until'', ''1%202''), (''limit'', ''25''), (''until'', ''a=b'')]"
          "[(''paging'', PDict [(''next'',
             PStr ''https://x?q=a?b&until=1%202&limit=25&until=a=b'')])]"
          "[(''next'', PStr ''https://x?q=a?b&until=1%202&limit=25&until=a=b'')]"]
    by simp
qed

section \<open>The invariant of a run\<close>

lemma rotate_pop:
  "ts \<noteq> [] \<Longrightarrow> rotate k ts = ts ! (k mod length ts) # tl (rotate k ts)"
  by (metis hd_rotate_conv_nth list.collapse rotate_is_Nil_conv)

lemma rotate_push:
  "ts \<noteq> [] \<Longrightarrow> tl (rotate k ts) @ [hd (rotate k ts)] = rotate (Suc k) ts"
  by (simp add: rotate1_hd_tl)

lemma inv_requesting:
  assumes "run_inv a h0 (Requesting p q, w)"
  shows "run_inv a h0 (step a srv (Requesting p q, w))"
proof (cases "tokens a = []")
  case True
  with assms show ?thesis by (auto simp: run_inv_def request_page_def)
next
  case False
  let ?k = "length (sent w)"
  from assms have p: "p = length h0" and q: "q = rotate ?k (tokens a)"
    and len: "length (heap w) = Suc (length h0)"
    by (auto simp: run_inv_def)
  from False q have qq: "q = tokens a ! (?k mod length (tokens a)) # tl (rotate ?k (tokens a))"
    using rotate_pop by metis
  show ?thesis
    using assms False
    apply (subst qq)
    apply (simp add: run_inv_def request_page_def Let_def p len nth_append hd_rotate_conv_nth
        split: sum.splits)
    apply (auto simp: nth_append less_Suc_eq)
    done
qed

lemma inv_extracting:
  assumes "run_inv a h0 (Extracting p q c, w)"
  shows "run_inv a h0 (step a srv (Extracting p q c, w))"
proof -
  let ?k = "length (sent w) - 1"
  from assms have p: "p = length h0" and len: "length (heap w) = Suc (length h0)"
    and ne: "sent w \<noteq> []" and ts: "tokens a \<noteq> []"
    and q: "q = tl (rotate ?k (tokens a))"
    and t: "(heap w ! p) ''access_token'' = Some (hd (rotate ?k (tokens a)))"
    by (auto simp: run_inv_def)
  from ne have k: "Suc ?k = length (sent w)" by (cases "sent w") auto
  have "q @ [hd (rotate ?k (tokens a))] = rotate (Suc ?k) (tokens a)"
    unfolding q using ts by (rule rotate_push)
  then have push: "q @ [hd (rotate ?k (tokens a))] = rotate (length (sent w)) (tokens a)"
    by (simp only: k)
  show ?thesis
    using assms push
    by (auto simp: run_inv_def continue_page_def Let_def t p len split: sum.splits option.splits)
qed

lemma step_inv: "run_inv a h0 c \<Longrightarrow> run_inv a h0 (step a srv c)"
proof -
  assume i: "run_inv a h0 c"
  obtain g w where c: "c = (g, w)" by (cases c)
  show ?thesis
  proof (cases g)
    case Created
    with i c show ?thesis by (simp add: run_inv_def)
  next
    case (Requesting p q)
    with i c show ?thesis using inv_requesting [of a h0 p q w srv] by simp
  next
    case (Extracting p q x)
    with i c show ?thesis using inv_extracting [of a h0 p q x w srv] by simp
  next
    case Done
    with i c show ?thesis by simp
  next
    case (Failed e)
    with i c show ?thesis by simp
  qed
qed

lemma paginate_Suc: "paginate a srv h (Suc n) = step a srv (paginate a srv h n)"
  by (simp add: paginate_def)

lemma paginate_inv: "run_inv a h (paginate a srv h n)"
proof (induction n)
  case 0
  show ?case by (simp add: paginate_def run_inv_def)
next
  case (Suc n)
  then show ?case by (simp add: paginate_Suc step_inv)
qed

lemmas fixture_defs = fixture_page1_def fixture_page2_def fixture_server_def fixture_store_def
  fixture_call_def request_page_def continue_page_def parse_response_def extract_after_def
  py_get_def dict_get_def geometric_ramp_up_value_def geometric_ramp_up_def Let_def

section \<open>Properties of the pagination engine\<close>

lemma reach_requesting:
  assumes "paginate a srv h n = (Requesting p q, w)"
  shows "p = length h" and "q = rotate (length (sent w)) (tokens a)"
    and "length (heap w) = Suc (length h)"
  using paginate_inv [of a h srv n] assms by (auto simp: run_inv_def)

lemma reach_extracting:
  assumes "paginate a srv h n = (Extracting p q c, w)"
  shows "p = length h" and "tokens a \<noteq> []" and "sent w \<noteq> []" and "yielded w \<noteq> []"
    and "q = tl (rotate (length (sent w) - 1) (tokens a))"
    and "(heap w ! p) ''access_token'' = Some (hd (rotate (length (sent w) - 1) (tokens a)))"
    and "snd (last (sent w)) = heap w ! p"
    and "page_content (last (yielded w)) = c"
    and "length (heap w) = Suc (length h)"
  using paginate_inv [of a h srv n] assms by (auto simp: run_inv_def)

lemma reach_frame: "take (length h) (heap (snd (paginate a srv h n))) = h"
proof -
  obtain g w where c: "paginate a srv h n = (g, w)" by (cases "paginate a srv h n")
  show ?thesis
    using paginate_inv [of a h srv n] c by (cases "g = Created") (auto simp: run_inv_def)
qed

lemma reach_tokens:
  "i < length (sent (snd (paginate a srv h n))) \<Longrightarrow>
   snd (sent (snd (paginate a srv h n)) ! i) ''access_token''
     = Some (tokens a ! (i mod length (tokens a)))"
proof -
  obtain g w where c: "paginate a srv h n = (g, w)" by (cases "paginate a srv h n")
  assume "i < length (sent (snd (paginate a srv h n)))"
  then show ?thesis
    using paginate_inv [of a h srv n] c by (auto simp: run_inv_def)
qed

lemma reach_envelopes:
  "e \<in> set (yielded (snd (paginate a srv h n))) \<Longrightarrow>
   page_parameters e = length h \<and> page_endpoint e = endpoint a"
proof -
  obtain g w where c: "paginate a srv h n = (g, w)" by (cases "paginate a srv h n")
  assume "e \<in> set (yielded (snd (paginate a srv h n)))"
  then show ?thesis
    using paginate_inv [of a h srv n] c by (auto simp: run_inv_def)
qed

lemma paginate_first:
  "paginate a srv h 1 =
     (Requesting (length h) (tokens a), \<lparr>heap = h @ [h ! parameters a], sent = [], yielded = []\<rparr>)"
  by (simp add: paginate_def)

lemma paginate_add: "paginate a srv h (n + m) = (step a srv ^^ m) (paginate a srv h n)"
  by (simp add: paginate_def funpow_add add.commute)

lemma stay_done: "(step a srv ^^ m) (Done, w) = (Done, w)"
  by (induction m) simp_all

lemma stay_failed: "(step a srv ^^ m) (Failed e, w) = (Failed e, w)"
  by (induction m) simp_all

text \<open>
  C9. \<^verbatim>\<open>paginate\<close> works on a private copy of the caller's parameter mapping: its first
  step allocates a new dict with the caller's entries, and after any number of steps
  every object that existed before the call, the caller's mapping among them, is as it
  was. The envelopes refer to the copy, never to the caller's mapping.
\<close>

theorem paginate_copies_parameters:
  "paginate a srv h 1 =
     (Requesting (length h) (tokens a), \<lparr>heap = h @ [h ! parameters a], sent = [], yielded = []\<rparr>)
   \<and> take (length h) (heap (snd (paginate a srv h n))) = h
   \<and> (parameters a < length h \<longrightarrow>
        heap (snd (paginate a srv h n)) ! parameters a = h ! parameters a
        \<and> (\<forall>e\<in>set (yielded (snd (paginate a srv h n))). page_parameters e \<noteq> parameters a))"
proof (intro conjI impI ballI)
  show "paginate a srv h 1 =
     (Requesting (length h) (tokens a), \<lparr>heap = h @ [h ! parameters a], sent = [], yielded = []\<rparr>)"
    by (rule paginate_first)
  show t: "take (length h) (heap (snd (paginate a srv h n))) = h"
    by (rule reach_frame)
  assume lt: "parameters a < length h"
  have "take (length h) (heap (snd (paginate a srv h n))) ! parameters a = h ! parameters a"
    by (simp only: t)
  with lt show "heap (snd (paginate a srv h n)) ! parameters a = h ! parameters a"
    by simp
  fix e assume "e \<in> set (yielded (snd (paginate a srv h n)))"
  then have "page_parameters e = length h" by (simp add: reach_envelopes)
  with lt show "page_parameters e \<noteq> parameters a" by simp
qed

theorem paginate_copies_parameters_witness:
  "parameters fixture_call < length fixture_store
   \<and> heap (snd (paginate fixture_call fixture_server fixture_store 5)) ! 0 = fixture_store ! 0
   \<and> (fixture_store ! 0) ''limit'' = Some (PInt 25)
   \<and> (fixture_store ! 0) ''after'' = None
   \<and> (fixture_store ! 0) ''access_token'' = None
   \<and> (heap (snd (paginate fixture_call fixture_server fixture_store 5)) ! 1) ''limit'' = Some (PInt 50)
   \<and> (heap (snd (paginate fixture_call fixture_server fixture_store 5)) ! 1) ''after''
       = Some (PStr ''C1'')
   \<and> (heap (snd (paginate fixture_call fixture_server fixture_store 5)) ! 1) ''access_token''
       = Some (PStr ''B'')"
proof -
  have r: "(heap (snd (paginate fixture_call fixture_server fixture_store 5)) ! 1) ''limit'' = Some (PInt 50)
   \<and> (heap (snd (paginate fixture_call fixture_server fixture_store 5)) ! 1) ''after''
       = Some (PStr ''C1'')
   \<and> (heap (snd (paginate fixture_call fixture_server fixture_store 5)) ! 1) ''access_token''
       = Some (PStr ''B'')"
    by (simp add: paginate_def eval_nat_numeral fixture_defs)
  have p: "parameters fixture_call = 0" "length fixture_store = 1"
    by (simp_all add: fixture_call_def fixture_store_def)
  show ?thesis
    using paginate_copies_parameters [of fixture_call fixture_server fixture_store 5] r
    by (simp add: p) (simp add: fixture_store_def)
qed


lemma step_requesting_sends:
  assumes "q \<noteq> []"
  shows "length (sent (snd (request_page a srv p q w))) = Suc (length (sent w))"
proof -
  obtain t q' where q: "q = t # q'" using assms by (cases q) auto
  show ?thesis
    by (simp add: q request_page_def Let_def split: sum.splits)
qed

lemma no_tokens_fails:
  assumes "tokens a = []"
  shows "paginate a srv h (n + 2) =
     (Failed IndexError, \<lparr>heap = h @ [h ! parameters a], sent = [], yielded = []\<rparr>)"
proof -
  have "paginate a srv h 2 =
     (Failed IndexError, \<lparr>heap = h @ [h ! parameters a], sent = [], yielded = []\<rparr>)"
    using assms by (simp add: paginate_def eval_nat_numeral request_page_def)
  then show ?thesis
    using paginate_add [of a srv h 2 n] by (simp add: stay_failed add.commute)
qed

text \<open>
  C8. In a run seeded with at least one credential, the queue at the top of the loop is
  never empty: it always holds as many credentials as the run was seeded with, so the
  \<^verbatim>\<open>popleft\<close> succeeds and a request is sent; while the generator is suspended at the
  \<^verbatim>\<open>yield\<close> the queue holds one less. A run seeded with no credential fails at its first
  \<^verbatim>\<open>popleft\<close> with IndexError, before any request and any page, and stays failed.
\<close>

theorem credential_queue_never_empty:
  "(tokens a \<noteq> [] \<longrightarrow>
      (\<forall>p q. fst (paginate a srv h n) = Requesting p q \<longrightarrow>
         q \<noteq> [] \<and> length q = length (tokens a)
         \<and> length (sent (snd (paginate a srv h (Suc n))))
             = Suc (length (sent (snd (paginate a srv h n)))))
      \<and> (\<forall>p q c. fst (paginate a srv h n) = Extracting p q c \<longrightarrow>
           Suc (length q) = length (tokens a)))
   \<and> (tokens a = [] \<longrightarrow>
        paginate a srv h (n + 2) =
          (Failed IndexError, \<lparr>heap = h @ [h ! parameters a], sent = [], yielded = []\<rparr>))"
proof (intro conjI impI allI)
  fix p q
  assume ts: "tokens a \<noteq> []" and g: "fst (paginate a srv h n) = Requesting p q"
  obtain w where c: "paginate a srv h n = (Requesting p q, w)"
    using g by (cases "paginate a srv h n") simp
  have q: "q = rotate (length (sent w)) (tokens a)"
    using c by (rule reach_requesting)
  show ne: "q \<noteq> []" using ts q by simp
  show "length q = length (tokens a)" using q by simp
  show "length (sent (snd (paginate a srv h (Suc n))))
          = Suc (length (sent (snd (paginate a srv h n))))"
    using ne by (simp add: paginate_Suc c step_requesting_sends)
next
  fix p q c
  assume ts: "tokens a \<noteq> []" and g: "fst (paginate a srv h n) = Extracting p q c"
  obtain w where c: "paginate a srv h n = (Extracting p q c, w)"
    using g by (cases "paginate a srv h n") simp
  have "q = tl (rotate (length (sent w) - 1) (tokens a))"
    using c by (rule reach_extracting)
  then show "Suc (length q) = length (tokens a)" using ts by simp
next
  assume "tokens a = []"
  then show "paginate a srv h (n + 2) =
          (Failed IndexError, \<lparr>heap = h @ [h ! parameters a], sent = [], yielded = []\<rparr>)"
    by (rule no_tokens_fails)
qed

theorem credential_queue_never_empty_witness:
  "tokens fixture_call \<noteq> []
   \<and> fst (paginate fixture_call fixture_server fixture_store 3)
       = Requesting 1 [PStr ''B'', PStr ''A'']
   \<and> length [PStr ''B'', PStr ''A''] = length (tokens fixture_call)
   \<and> length (sent (snd (paginate fixture_call fixture_server fixture_store (Suc 3))))
       = Suc (length (sent (snd (paginate fixture_call fixture_server fixture_store 3))))
   \<and> fst (paginate fixture_call fixture_server fixture_store 4)
       = Extracting 1 [PStr ''A''] fixture_page2
   \<and> Suc (length [PStr ''A'']) = length (tokens fixture_call)
   \<and> tokens (fixture_call\<lparr>tokens := []\<rparr>) = []
   \<and> paginate (fixture_call\<lparr>tokens := []\<rparr>) fixture_server fixture_store (5 + 2)
       = (Failed IndexError,
          \<lparr>heap = fixture_store @ [fixture_store ! parameters (fixture_call\<lparr>tokens := []\<rparr>)],
             sent = [], yielded = []\<rparr>)"
proof -
  have r3: "fst (paginate fixture_call fixture_server fixture_store 3)
       = Requesting 1 [PStr ''B'', PStr ''A'']"
    by (simp add: paginate_def eval_nat_numeral fixture_defs)
  have r4: "fst (paginate fixture_call fixture_server fixture_store 4)
       = Extracting 1 [PStr ''A''] fixture_page2"
    by (simp add: paginate_def eval_nat_numeral fixture_defs)
  have t: "tokens fixture_call \<noteq> []" by (simp add: fixture_call_def)
  have a: "length [PStr ''B'', PStr ''A''] = length (tokens fixture_call)
      \<and> length (sent (snd (paginate fixture_call fixture_server fixture_store (Suc 3))))
          = Suc (length (sent (snd (paginate fixture_call fixture_server fixture_store 3))))"
    using credential_queue_never_empty [of fixture_call fixture_server fixture_store 3] t r3
    by blast
  have b: "Suc (length [PStr ''A'']) = length (tokens fixture_call)"
    using credential_queue_never_empty [of fixture_call fixture_server fixture_store 4] t r4
    by blast
  have e: "tokens (fixture_call\<lparr>tokens := []\<rparr>) = []" by simp
  have c: "paginate (fixture_call\<lparr>tokens := []\<rparr>) fixture_server fixture_store (5 + 2)
       = (Failed IndexError,
          \<lparr>heap = fixture_store @ [fixture_store ! parameters (fixture_call\<lparr>tokens := []\<rparr>)],
             sent = [], yielded = []\<rparr>)"
    using credential_queue_never_empty
      [of "fixture_call\<lparr>tokens := []\<rparr>" fixture_server fixture_store 5] e
    by blast
  show ?thesis using t r3 r4 a b e c by blast
qed


lemma request_page_Cons:
  assumes "p < length (heap w)"
  shows "sent (snd (request_page a srv p (t # q) w))
           = sent w @ [(endpoint a, (heap w ! p)(''access_token'' \<mapsto> t))]"
    and "srv (sent w @ [(endpoint a, (heap w ! p)(''access_token'' \<mapsto> t))]) = Inr r \<Longrightarrow>
         request_page a srv p (t # q) w =
           (Extracting p q (parse_response r),
            w\<lparr>heap := (heap w)[p := (heap w ! p)(''access_token'' \<mapsto> t)],
              sent := sent w @ [(endpoint a, (heap w ! p)(''access_token'' \<mapsto> t))],
              yielded := yielded w @
                [\<lparr>page_content = parse_response r, page_status = status_code r,
                  page_endpoint = endpoint a, page_parameters = p\<rparr>]\<rparr>)"
    and "srv (sent w @ [(endpoint a, (heap w ! p)(''access_token'' \<mapsto> t))]) = Inl e \<Longrightarrow>
         fst (request_page a srv p (t # q) w) = Failed e"
  using assms by (simp_all add: request_page_def Let_def split: sum.splits)

lemma continue_page_stop:
  assumes "cursor_extractor a c = Inr cursor" and "py_get c ''data'' (PList []) = Inr data"
    and "\<not> (truthy data \<and> truthy cursor \<and> \<not> py_eq cursor (dict_get (heap w ! p) (cursor_key a)))"
  shows "continue_page a p q c w = (Done, w)"
  using assms by (auto simp: continue_page_def)

lemma continue_page_go:
  assumes "cursor_extractor a c = Inr cursor" and "py_get c ''data'' (PList []) = Inr data"
    and "truthy data \<and> truthy cursor \<and> \<not> py_eq cursor (dict_get (heap w ! p) (cursor_key a))"
    and "(heap w ! p) ''access_token'' = Some t"
  shows "continue_page a p q c w =
     (case ((heap w ! p)(cursor_key a \<mapsto> cursor)) ''limit'' of
        None \<Rightarrow> (Requesting p (q @ [t]), w\<lparr>heap := (heap w)[p := (heap w ! p)(cursor_key a \<mapsto> cursor)]\<rparr>)
      | Some l \<Rightarrow>
          (case ramp_up a l of
             Inl e \<Rightarrow> (Failed e, w\<lparr>heap := (heap w)[p := (heap w ! p)(cursor_key a \<mapsto> cursor)]\<rparr>)
           | Inr l' \<Rightarrow>
               (Requesting p (q @ [t]),
                w\<lparr>heap := (heap w)[p := (heap w ! p)(cursor_key a \<mapsto> cursor, ''limit'' \<mapsto> l')]\<rparr>)))"
  using assms by (simp add: continue_page_def Let_def)

text \<open>
  C3. The credential rotator is a first-in first-out queue seeded with the caller's
  credentials in their order. At the top of the loop the front credential is popped and
  sent with the request, and the rest of the queue is kept. After the \<^verbatim>\<open>yield\<close>, when
  the continuation test passes, the credential of the request just made is pushed to
  the back (unless the ramp-up function raises, which ends the run); when it does not
  pass, the run is over and nothing is pushed. Hence the \<open>i\<close>-th request of any run
  carries credential \<open>i mod k\<close> of the \<open>k\<close> supplied; for \<open>[A, B]\<close> the first three
  requests carry \<open>A\<close>, \<open>B\<close>, \<open>A\<close>.
\<close>

theorem credential_round_robin:
  "paginate a srv h 1 =
     (Requesting (length h) (tokens a), \<lparr>heap = h @ [h ! parameters a], sent = [], yielded = []\<rparr>)
   \<and> (\<forall>i<length (sent (snd (paginate a srv h n))).
         snd (sent (snd (paginate a srv h n)) ! i) ''access_token''
           = Some (tokens a ! (i mod length (tokens a))))
   \<and> (paginate a srv h n = (Requesting p (t # q), w) \<longrightarrow>
         sent (snd (paginate a srv h (Suc n)))
           = sent w @ [(endpoint a, (heap w ! p)(''access_token'' \<mapsto> t))]
         \<and> (\<forall>r. srv (sent (snd (paginate a srv h (Suc n)))) = Inr r \<longrightarrow>
               fst (paginate a srv h (Suc n)) = Extracting p q (parse_response r)))
   \<and> (paginate a srv h n = (Extracting p q c, w) \<and> cursor_extractor a c = Inr cursor
        \<and> py_get c ''data'' (PList []) = Inr data \<longrightarrow>
         (\<exists>u. snd (last (sent w)) ''access_token'' = Some u
            \<and> (if truthy data \<and> truthy cursor
                    \<and> \<not> py_eq cursor (dict_get (heap w ! p) (cursor_key a))
                then fst (paginate a srv h (Suc n)) = Requesting p (q @ [u])
                     \<or> (\<exists>e l. ramp_up a l = Inl e \<and> fst (paginate a srv h (Suc n)) = Failed e)
                else fst (paginate a srv h (Suc n)) = Done)))
   \<and> (tokens a = [A, B] \<longrightarrow>
         (0 < length (sent (snd (paginate a srv h n))) \<longrightarrow>
            snd (sent (snd (paginate a srv h n)) ! 0) ''access_token'' = Some A)
       \<and> (1 < length (sent (snd (paginate a srv h n))) \<longrightarrow>
            snd (sent (snd (paginate a srv h n)) ! 1) ''access_token'' = Some B)
       \<and> (2 < length (sent (snd (paginate a srv h n))) \<longrightarrow>
            snd (sent (snd (paginate a srv h n)) ! 2) ''access_token'' = Some A))"
proof (intro conjI)
  show "paginate a srv h 1 =
     (Requesting (length h) (tokens a), \<lparr>heap = h @ [h ! parameters a], sent = [], yielded = []\<rparr>)"
    by (rule paginate_first)
  show "\<forall>i<length (sent (snd (paginate a srv h n))).
         snd (sent (snd (paginate a srv h n)) ! i) ''access_token''
           = Some (tokens a ! (i mod length (tokens a)))"
    by (simp add: reach_tokens)
  show "paginate a srv h n = (Requesting p (t # q), w) \<longrightarrow>
         sent (snd (paginate a srv h (Suc n)))
           = sent w @ [(endpoint a, (heap w ! p)(''access_token'' \<mapsto> t))]
         \<and> (\<forall>r. srv (sent (snd (paginate a srv h (Suc n)))) = Inr r \<longrightarrow>
               fst (paginate a srv h (Suc n)) = Extracting p q (parse_response r))"
  proof (intro impI)
    assume c: "paginate a srv h n = (Requesting p (t # q), w)"
    have "p = length h" and "length (heap w) = Suc (length h)"
      using c by (rule reach_requesting)+
    then have lt: "p < length (heap w)" by simp
    have nx: "paginate a srv h (Suc n) = request_page a srv p (t # q) w"
      by (simp add: paginate_Suc c)
    have s: "sent (snd (paginate a srv h (Suc n)))
           = sent w @ [(endpoint a, (heap w ! p)(''access_token'' \<mapsto> t))]"
      unfolding nx using lt by (rule request_page_Cons(1))
    have "\<forall>r. srv (sent (snd (paginate a srv h (Suc n)))) = Inr r \<longrightarrow>
               fst (paginate a srv h (Suc n)) = Extracting p q (parse_response r)"
    proof (intro allI impI)
      fix r assume "srv (sent (snd (paginate a srv h (Suc n)))) = Inr r"
      then have "srv (sent w @ [(endpoint a, (heap w ! p)(''access_token'' \<mapsto> t))]) = Inr r"
        by (simp only: s)
      then show "fst (paginate a srv h (Suc n)) = Extracting p q (parse_response r)"
        unfolding nx using lt by (simp add: request_page_Cons(2))
    qed
    with s show "sent (snd (paginate a srv h (Suc n)))
           = sent w @ [(endpoint a, (heap w ! p)(''access_token'' \<mapsto> t))]
         \<and> (\<forall>r. srv (sent (snd (paginate a srv h (Suc n)))) = Inr r \<longrightarrow>
               fst (paginate a srv h (Suc n)) = Extracting p q (parse_response r))"
      by blast
  qed
  show "paginate a srv h n = (Extracting p q c, w) \<and> cursor_extractor a c = Inr cursor
        \<and> py_get c ''data'' (PList []) = Inr data \<longrightarrow>
         (\<exists>u. snd (last (sent w)) ''access_token'' = Some u
            \<and> (if truthy data \<and> truthy cursor
                    \<and> \<not> py_eq cursor (dict_get (heap w ! p) (cursor_key a))
                then fst (paginate a srv h (Suc n)) = Requesting p (q @ [u])
                     \<or> (\<exists>e l. ramp_up a l = Inl e \<and> fst (paginate a srv h (Suc n)) = Failed e)
                else fst (paginate a srv h (Suc n)) = Done))"
  proof (intro impI)
    assume h: "paginate a srv h n = (Extracting p q c, w) \<and> cursor_extractor a c = Inr cursor
        \<and> py_get c ''data'' (PList []) = Inr data"
    then have c: "paginate a srv h n = (Extracting p q c, w)" by simp
    let ?u = "hd (rotate (length (sent w) - 1) (tokens a))"
    have tok: "(heap w ! p) ''access_token'' = Some ?u"
      using c by (rule reach_extracting)
    have lst: "snd (last (sent w)) = heap w ! p"
      using c by (rule reach_extracting)
    have nx: "paginate a srv h (Suc n) = continue_page a p q c w"
      by (simp add: paginate_Suc c)
    show "\<exists>u. snd (last (sent w)) ''access_token'' = Some u
            \<and> (if truthy data \<and> truthy cursor
                    \<and> \<not> py_eq cursor (dict_get (heap w ! p) (cursor_key a))
                then fst (paginate a srv h (Suc n)) = Requesting p (q @ [u])
                     \<or> (\<exists>e l. ramp_up a l = Inl e \<and> fst (paginate a srv h (Suc n)) = Failed e)
                else fst (paginate a srv h (Suc n)) = Done)"
    proof (intro exI [of _ ?u] conjI)
      show "snd (last (sent w)) ''access_token'' = Some ?u"
        by (simp add: lst tok)
      show "if truthy data \<and> truthy cursor
                    \<and> \<not> py_eq cursor (dict_get (heap w ! p) (cursor_key a))
            then fst (paginate a srv h (Suc n)) = Requesting p (q @ [?u])
                 \<or> (\<exists>e l. ramp_up a l = Inl e \<and> fst (paginate a srv h (Suc n)) = Failed e)
            else fst (paginate a srv h (Suc n)) = Done"
      proof (cases "truthy data \<and> truthy cursor
                    \<and> \<not> py_eq cursor (dict_get (heap w ! p) (cursor_key a))")
        case True
        have "continue_page a p q c w =
          (case ((heap w ! p)(cursor_key a \<mapsto> cursor)) ''limit'' of
            None \<Rightarrow> (Requesting p (q @ [?u]),
                     w\<lparr>heap := (heap w)[p := (heap w ! p)(cursor_key a \<mapsto> cursor)]\<rparr>)
          | Some l \<Rightarrow>
             (case ramp_up a l of
                Inl e \<Rightarrow> (Failed e, w\<lparr>heap := (heap w)[p := (heap w ! p)(cursor_key a \<mapsto> cursor)]\<rparr>)
              | Inr l' \<Rightarrow>
                 (Requesting p (q @ [?u]),
                  w\<lparr>heap := (heap w)[p := (heap w ! p)(cursor_key a \<mapsto> cursor, ''limit'' \<mapsto> l')]\<rparr>)))"
          using h True tok by (intro continue_page_go) auto
        then have "fst (paginate a srv h (Suc n)) = Requesting p (q @ [?u])
                 \<or> (\<exists>e l. ramp_up a l = Inl e \<and> fst (paginate a srv h (Suc n)) = Failed e)"
          unfolding nx by (auto split: option.splits sum.splits)
        with True show ?thesis by simp
      next
        case False
        have "continue_page a p q c w = (Done, w)"
          using h False by (intro continue_page_stop) auto
        with False show ?thesis by (simp add: nx)
      qed
    qed
  qed
  show "tokens a = [A, B] \<longrightarrow>
         (0 < length (sent (snd (paginate a srv h n))) \<longrightarrow>
            snd (sent (snd (paginate a srv h n)) ! 0) ''access_token'' = Some A)
       \<and> (1 < length (sent (snd (paginate a srv h n))) \<longrightarrow>
            snd (sent (snd (paginate a srv h n)) ! 1) ''access_token'' = Some B)
       \<and> (2 < length (sent (snd (paginate a srv h n))) \<longrightarrow>
            snd (sent (snd (paginate a srv h n)) ! 2) ''access_token'' = Some A)"
  proof (intro impI conjI)
    assume ts: "tokens a = [A, B]"
    {
      assume "0 < length (sent (snd (paginate a srv h n)))"
      then show "snd (sent (snd (paginate a srv h n)) ! 0) ''access_token'' = Some A"
        using reach_tokens [of 0 a srv h n] ts by simp
    }
    {
      assume "1 < length (sent (snd (paginate a srv h n)))"
      then show "snd (sent (snd (paginate a srv h n)) ! 1) ''access_token'' = Some B"
        using reach_tokens [of 1 a srv h n] ts by simp
    }
    {
      assume "2 < length (sent (snd (paginate a srv h n)))"
      then show "snd (sent (snd (paginate a srv h n)) ! 2) ''access_token'' = Some A"
        using reach_tokens [of 2 a srv h n] ts by (simp add: eval_nat_numeral)
    }
  qed
qed

theorem credential_round_robin_witness:
  "tokens fixture_call = [PStr ''A'', PStr ''B'']
   \<and> length (sent (snd (paginate fixture_call fixture_endless fixture_store 6))) = 3
   \<and> snd (sent (snd (paginate fixture_call fixture_endless fixture_store 6)) ! 0) ''access_token''
       = Some (PStr ''A'')
   \<and> snd (sent (snd (paginate fixture_call fixture_endless fixture_store 6)) ! 1) ''access_token''
       = Some (PStr ''B'')
   \<and> snd (sent (snd (paginate fixture_call fixture_endless fixture_store 6)) ! 2) ''access_token''
       = Some (PStr ''A'')
   \<and> fst (paginate fixture_call fixture_server fixture_store 1)
       = Requesting 1 [PStr ''A'', PStr ''B'']
   \<and> fst (paginate fixture_call fixture_server fixture_store 2)
       = Extracting 1 [PStr ''B''] fixture_page1
   \<and> cursor_extractor fixture_call fixture_page1 = Inr (PStr ''C1'')
   \<and> py_get fixture_page1 ''data'' (PList []) = Inr (PList [PDict [(''id'', PStr ''1'')]])
   \<and> fst (paginate fixture_call fixture_server fixture_store 3)
       = Requesting 1 [PStr ''B'', PStr ''A'']
   \<and> fst (paginate fixture_call fixture_server fixture_store 4)
       = Extracting 1 [PStr ''A''] fixture_page2
   \<and> fst (paginate fixture_call fixture_server fixture_store 5) = Done"
proof -
  have ts: "tokens fixture_call = [PStr ''A'', PStr ''B'']"
    by (simp add: fixture_call_def)
  have len: "length (sent (snd (paginate fixture_call fixture_endless fixture_store 6))) = 3"
    by (simp add: paginate_def eval_nat_numeral fixture_endless_def fixture_defs)
  have tok: "snd (sent (snd (paginate fixture_call fixture_endless fixture_store 6)) ! 0) ''access_token''
       = Some (PStr ''A'')
   \<and> snd (sent (snd (paginate fixture_call fixture_endless fixture_store 6)) ! 1) ''access_token''
       = Some (PStr ''B'')
   \<and> snd (sent (snd (paginate fixture_call fixture_endless fixture_store 6)) ! 2) ''access_token''
       = Some (PStr ''A'')"
    using credential_round_robin
      [where a = fixture_call and srv = fixture_endless and h = fixture_store and n = 6
         and A = "PStr ''A''" and B = "PStr ''B''"] ts len
    by simp
  have r1: "fst (paginate fixture_call fixture_server fixture_store 1)
       = Requesting 1 [PStr ''A'', PStr ''B'']"
    by (simp add: paginate_def fixture_defs)
  have r2: "fst (paginate fixture_call fixture_server fixture_store 2)
       = Extracting 1 [PStr ''B''] fixture_page1"
    by (simp add: paginate_def eval_nat_numeral fixture_defs)
  have ex: "cursor_extractor fixture_call fixture_page1 = Inr (PStr ''C1'')"
    by (simp add: fixture_defs)
  have da: "py_get fixture_page1 ''data'' (PList []) = Inr (PList [PDict [(''id'', PStr ''1'')]])"
    by (simp add: fixture_defs)
  have r3: "fst (paginate fixture_call fixture_server fixture_store 3)
       = Requesting 1 [PStr ''B'', PStr ''A'']"
    by (simp add: paginate_def eval_nat_numeral fixture_defs)
  have r4: "fst (paginate fixture_call fixture_server fixture_store 4)
       = Extracting 1 [PStr ''A''] fixture_page2"
    by (simp add: paginate_def eval_nat_numeral fixture_defs)
  have r5: "fst (paginate fixture_call fixture_server fixture_store 5) = Done"
    by (simp add: paginate_def eval_nat_numeral fixture_defs)
  show ?thesis using ts len tok r1 r2 ex da r3 r4 r5 by blast
qed

lemma request_page_shape:
  assumes "q \<noteq> []"
  shows "(\<exists>q' c'. fst (request_page a srv p q w) = Extracting p q' c')
         \<or> (\<exists>e. fst (request_page a srv p q w) = Failed e)"
proof -
  obtain t q' where q: "q = t # q'" using assms by (cases q) auto
  show ?thesis
    by (simp add: q request_page_def Let_def split: sum.splits)
qed

lemma continue_page_go_ok:
  assumes "cursor_extractor a c = Inr cursor" and "py_get c ''data'' (PList []) = Inr data"
    and "truthy data \<and> truthy cursor \<and> \<not> py_eq cursor (dict_get (heap w ! p) (cursor_key a))"
    and "(heap w ! p) ''access_token'' = Some t"
    and "\<forall>l. ((heap w ! p)(cursor_key a \<mapsto> cursor)) ''limit'' = Some l \<longrightarrow> (\<exists>l'. ramp_up a l = Inr l')"
  shows "\<exists>w'. continue_page a p q c w = (Requesting p (q @ [t]), w') \<and> sent w' = sent w"
proof (cases "((heap w ! p)(cursor_key a \<mapsto> cursor)) ''limit''")
  case None
  then show ?thesis
    unfolding continue_page_go [OF assms(1-4)] by simp
next
  case (Some l)
  with assms(5) obtain l' where "ramp_up a l = Inr l'" by blast
  with Some show ?thesis
    unfolding continue_page_go [OF assms(1-4)] by simp
qed

lemma stays_after:
  assumes "paginate a srv h (Suc n) = (g, w)" and "g = Done \<or> (\<exists>e. g = Failed e)"
  shows "paginate a srv h (Suc n + m) = (g, w)"
proof -
  have "paginate a srv h (Suc n + m) = (step a srv ^^ m) (paginate a srv h (Suc n))"
    by (rule paginate_add)
  also have "\<dots> = (g, w)"
    using assms(2) by (auto simp only: assms(1) stay_done stay_failed)
  finally show ?thesis .
qed

text \<open>
  The test of line 111 passing does not by itself bring a further request, and a returned
  cursor that differs from the stored one does not by itself make the test pass. In the
  two-page run started with the limit \<open>'25'\<close> (a string), the first page has an item and
  the new cursor \<open>C1\<close>, yet \<^verbatim>\<open>min(3000, '2525')\<close> raises TypeError on line 115 and only
  one request is ever sent. Against a server whose page has an item and the cursor
  \<open>''\<close>, the extractor returns that cursor, which is not None and differs from the
  stored value, yet the generator returns after the first page.
\<close>

theorem continuation_iff_counterexample:
  "fst (paginate fixture_call fixture_server [[''limit'' \<mapsto> PStr ''25'']] 2)
       = Extracting 1 [PStr ''B''] fixture_page1
   \<and> cursor_extractor fixture_call fixture_page1 = Inr (PStr ''C1'')
   \<and> py_get fixture_page1 ''data'' (PList []) = Inr (PList [PDict [(''id'', PStr ''1'')]])
   \<and> dict_get (heap (snd (paginate fixture_call fixture_server [[''limit'' \<mapsto> PStr ''25'']] 2)) ! 1)
         (cursor_key fixture_call) = PNone
   \<and> \<not> py_eq (PStr ''C1'') PNone
   \<and> length (sent (snd (paginate fixture_call fixture_server [[''limit'' \<mapsto> PStr ''25'']] 2))) = 1
   \<and> fst (paginate fixture_call fixture_server [[''limit'' \<mapsto> PStr ''25'']] 3) = Failed TypeError
   \<and> fst (paginate fixture_call fixture_server [[''limit'' \<mapsto> PStr ''25'']] 7) = Failed TypeError
   \<and> length (sent (snd (paginate fixture_call fixture_server [[''limit'' \<mapsto> PStr ''25'']] 7))) = 1
   \<and> fst (paginate fixture_call fixture_blank fixture_store 2)
       = Extracting 1 [PStr ''B''] fixture_blank_page
   \<and> cursor_extractor fixture_call fixture_blank_page = Inr (PStr [])
   \<and> PStr [] \<noteq> PNone
   \<and> py_get fixture_blank_page ''data'' (PList []) = Inr (PList [PInt 1])
   \<and> dict_get (heap (snd (paginate fixture_call fixture_blank fixture_store 2)) ! 1)
         (cursor_key fixture_call) = PNone
   \<and> \<not> py_eq (PStr []) PNone
   \<and> length (sent (snd (paginate fixture_call fixture_blank fixture_store 2))) = 1
   \<and> fst (paginate fixture_call fixture_blank fixture_store 3) = Done
   \<and> fst (paginate fixture_call fixture_blank fixture_store 7) = Done
   \<and> length (sent (snd (paginate fixture_call fixture_blank fixture_store 7))) = 1"
proof -
  have 1: "fst (paginate fixture_call fixture_server [[''limit'' \<mapsto> PStr ''25'']] 2)
       = Extracting 1 [PStr ''B''] fixture_page1
     \<and> dict_get (heap (snd (paginate fixture_call fixture_server [[''limit'' \<mapsto> PStr ''25'']] 2)) ! 1)
         (cursor_key fixture_call) = PNone
     \<and> length (sent (snd (paginate fixture_call fixture_server [[''limit'' \<mapsto> PStr ''25'']] 2))) = 1"
    by (simp add: paginate_def eval_nat_numeral fixture_defs)
  have 2: "cursor_extractor fixture_call fixture_page1 = Inr (PStr ''C1'')
     \<and> py_get fixture_page1 ''data'' (PList []) = Inr (PList [PDict [(''id'', PStr ''1'')]])
     \<and> \<not> py_eq (PStr ''C1'') PNone"
    by (simp add: fixture_defs)
  have 3: "fst (paginate fixture_call fixture_server [[''limit'' \<mapsto> PStr ''25'']] 3) = Failed TypeError"
    by (simp add: paginate_def eval_nat_numeral fixture_defs)
  have 4: "fst (paginate fixture_call fixture_server [[''limit'' \<mapsto> PStr ''25'']] 7) = Failed TypeError
     \<and> length (sent (snd (paginate fixture_call fixture_server [[''limit'' \<mapsto> PStr ''25'']] 7))) = 1"
    by (simp add: paginate_def eval_nat_numeral fixture_defs)
  have 5: "fst (paginate fixture_call fixture_blank fixture_store 2)
       = Extracting 1 [PStr ''B''] fixture_blank_page
     \<and> dict_get (heap (snd (paginate fixture_call fixture_blank fixture_store 2)) ! 1)
         (cursor_key fixture_call) = PNone
     \<and> length (sent (snd (paginate fixture_call fixture_blank fixture_store 2))) = 1"
    by (simp add: paginate_def eval_nat_numeral fixture_blank_def fixture_blank_page_def fixture_defs)
  have 6: "cursor_extractor fixture_call fixture_blank_page = Inr (PStr [])
     \<and> PStr [] \<noteq> PNone
     \<and> py_get fixture_blank_page ''data'' (PList []) = Inr (PList [PInt 1])
     \<and> \<not> py_eq (PStr []) PNone"
    by (simp add: fixture_blank_page_def fixture_defs)
  have 7: "fst (paginate fixture_call fixture_blank fixture_store 3) = Done"
    by (simp add: paginate_def eval_nat_numeral fixture_blank_def fixture_blank_page_def fixture_defs)
  have 8: "fst (paginate fixture_call fixture_blank fixture_store 7) = Done
     \<and> length (sent (snd (paginate fixture_call fixture_blank fixture_store 7))) = 1"
    by (simp add: paginate_def eval_nat_numeral fixture_blank_def fixture_blank_page_def fixture_defs)
  from 1 2 3 4 5 6 7 8 show ?thesis by blast
qed

text \<open>
  C1, as the code has it. Take any page the engine has yielded. If its \<^verbatim>\<open>data\<close> entry
  (the empty list when absent) and the cursor the extractor returns for it are both true
  as Python tests them (a non-empty list, a cursor that is neither None nor empty), the
  cursor differs from the value stored under the cursor key in the parameter mapping,
  and the ramp-up function does not raise, then exactly one further request is sent
  before the generator is at its next \<^verbatim>\<open>yield\<close> or has failed on that request. In every
  other case no further request is ever sent and no further page yielded: when the test
  fails the generator returns, even if \<^verbatim>\<open>data\<close> is non-empty; when the extractor, the
  lookup of \<^verbatim>\<open>data\<close> or the ramp-up function raises, the generator ends with that
  exception.
\<close>

theorem continuation_test_decides_next_request:
  assumes "paginate a srv h n = (Extracting p q c, w)"
  shows "(cursor_extractor a c = Inr cursor \<and> py_get c ''data'' (PList []) = Inr data
            \<and> truthy data \<and> truthy cursor
            \<and> \<not> py_eq cursor (dict_get (heap w ! p) (cursor_key a))
            \<and> (\<forall>l. ((heap w ! p)(cursor_key a \<mapsto> cursor)) ''limit'' = Some l
                   \<longrightarrow> (\<exists>l'. ramp_up a l = Inr l'))
          \<longrightarrow> sent (snd (paginate a srv h (Suc n))) = sent w
              \<and> length (sent (snd (paginate a srv h (Suc (Suc n))))) = Suc (length (sent w))
              \<and> ((\<exists>q' c'. fst (paginate a srv h (Suc (Suc n))) = Extracting p q' c')
                  \<or> (\<exists>e. fst (paginate a srv h (Suc (Suc n))) = Failed e)))
       \<and> (cursor_extractor a c = Inr cursor \<and> py_get c ''data'' (PList []) = Inr data
            \<and> \<not> (truthy data \<and> truthy cursor
                   \<and> \<not> py_eq cursor (dict_get (heap w ! p) (cursor_key a)))
          \<longrightarrow> (\<forall>m. paginate a srv h (Suc n + m) = (Done, w)))
       \<and> (cursor_extractor a c = Inl e
            \<or> (cursor_extractor a c = Inr cursor \<and> py_get c ''data'' (PList []) = Inl e)
          \<longrightarrow> (\<forall>m. paginate a srv h (Suc n + m) = (Failed e, w)))
       \<and> (cursor_extractor a c = Inr cursor \<and> py_get c ''data'' (PList []) = Inr data
            \<and> truthy data \<and> truthy cursor
            \<and> \<not> py_eq cursor (dict_get (heap w ! p) (cursor_key a))
            \<and> ((heap w ! p)(cursor_key a \<mapsto> cursor)) ''limit'' = Some l \<and> ramp_up a l = Inl e
          \<longrightarrow> (\<forall>m. fst (paginate a srv h (Suc n + m)) = Failed e
                    \<and> sent (snd (paginate a srv h (Suc n + m))) = sent w
                    \<and> yielded (snd (paginate a srv h (Suc n + m))) = yielded w))"
proof (intro conjI impI allI)
  assume t: "cursor_extractor a c = Inr cursor \<and> py_get c ''data'' (PList []) = Inr data
            \<and> truthy data \<and> truthy cursor
            \<and> \<not> py_eq cursor (dict_get (heap w ! p) (cursor_key a))
            \<and> (\<forall>l. ((heap w ! p)(cursor_key a \<mapsto> cursor)) ''limit'' = Some l
                   \<longrightarrow> (\<exists>l'. ramp_up a l = Inr l'))"
  let ?u = "hd (rotate (length (sent w) - 1) (tokens a))"
  have tok: "(heap w ! p) ''access_token'' = Some ?u"
    using assms by (rule reach_extracting)
  have "\<exists>w'. continue_page a p q c w = (Requesting p (q @ [?u]), w') \<and> sent w' = sent w"
    using t tok by (intro continue_page_go_ok) auto
  then obtain w' where w': "continue_page a p q c w = (Requesting p (q @ [?u]), w')"
    and s: "sent w' = sent w" by blast
  have n1: "paginate a srv h (Suc n) = (Requesting p (q @ [?u]), w')"
    by (simp add: paginate_Suc assms w')
  show "sent (snd (paginate a srv h (Suc n))) = sent w"
    by (simp add: n1 s)
  have n2: "paginate a srv h (Suc (Suc n)) = request_page a srv p (q @ [?u]) w'"
    by (simp add: paginate_Suc [of a srv h "Suc n"] n1)
  show "length (sent (snd (paginate a srv h (Suc (Suc n))))) = Suc (length (sent w))"
    unfolding n2 by (simp add: step_requesting_sends s)
  show "(\<exists>q' c'. fst (paginate a srv h (Suc (Suc n))) = Extracting p q' c')
          \<or> (\<exists>e. fst (paginate a srv h (Suc (Suc n))) = Failed e)"
    unfolding n2 by (rule request_page_shape) simp
next
  fix m
  assume f: "cursor_extractor a c = Inr cursor \<and> py_get c ''data'' (PList []) = Inr data
            \<and> \<not> (truthy data \<and> truthy cursor
                   \<and> \<not> py_eq cursor (dict_get (heap w ! p) (cursor_key a)))"
  have "continue_page a p q c w = (Done, w)"
    using f by (intro continue_page_stop) auto
  then have "paginate a srv h (Suc n) = (Done, w)"
    by (simp add: paginate_Suc assms)
  then show "paginate a srv h (Suc n + m) = (Done, w)"
    by (rule stays_after) simp
next
  fix m
  assume f: "cursor_extractor a c = Inl e
            \<or> (cursor_extractor a c = Inr cursor \<and> py_get c ''data'' (PList []) = Inl e)"
  then have "continue_page a p q c w = (Failed e, w)"
    by (auto simp: continue_page_def)
  then have "paginate a srv h (Suc n) = (Failed e, w)"
    by (simp add: paginate_Suc assms)
  then show "paginate a srv h (Suc n + m) = (Failed e, w)"
    by (rule stays_after) simp
next
  fix m
  assume t: "cursor_extractor a c = Inr cursor \<and> py_get c ''data'' (PList []) = Inr data
            \<and> truthy data \<and> truthy cursor
            \<and> \<not> py_eq cursor (dict_get (heap w ! p) (cursor_key a))
            \<and> ((heap w ! p)(cursor_key a \<mapsto> cursor)) ''limit'' = Some l \<and> ramp_up a l = Inl e"
  let ?u = "hd (rotate (length (sent w) - 1) (tokens a))"
  let ?w = "w\<lparr>heap := (heap w)[p := (heap w ! p)(cursor_key a \<mapsto> cursor)]\<rparr>"
  have tok: "(heap w ! p) ''access_token'' = Some ?u"
    using assms by (rule reach_extracting)
  have "continue_page a p q c w = (Failed e, ?w)"
    using t tok by (subst continue_page_go [where cursor = cursor and data = data and t = ?u]) auto
  then have "paginate a srv h (Suc n) = (Failed e, ?w)"
    by (simp add: paginate_Suc assms)
  then have "paginate a srv h (Suc n + m) = (Failed e, ?w)"
    by (rule stays_after) simp
  then show "fst (paginate a srv h (Suc n + m)) = Failed e"
    and "sent (snd (paginate a srv h (Suc n + m))) = sent w"
    and "yielded (snd (paginate a srv h (Suc n + m))) = yielded w"
    by simp_all
qed

theorem continuation_test_decides_next_request_witness:
  "fst (paginate fixture_call fixture_server fixture_store 2)
       = Extracting 1 [PStr ''B''] fixture_page1
   \<and> cursor_extractor fixture_call fixture_page1 = Inr (PStr ''C1'')
   \<and> py_get fixture_page1 ''data'' (PList []) = Inr (PList [PDict [(''id'', PStr ''1'')]])
   \<and> truthy (PList [PDict [(''id'', PStr ''1'')]]) \<and> truthy (PStr ''C1'')
   \<and> \<not> py_eq (PStr ''C1'')
         (dict_get (heap (snd (paginate fixture_call fixture_server fixture_store 2)) ! 1)
            (cursor_key fixture_call))
   \<and> sent (snd (paginate fixture_call fixture_server fixture_store (Suc 2)))
       = sent (snd (paginate fixture_call fixture_server fixture_store 2))
   \<and> length (sent (snd (paginate fixture_call fixture_server fixture_store (Suc (Suc 2)))))
       = Suc (length (sent (snd (paginate fixture_call fixture_server fixture_store 2))))
   \<and> fst (paginate fixture_call fixture_stuck fixture_store 4)
       = Extracting 1 [PStr ''A''] fixture_page1
   \<and> py_eq (PStr ''C1'')
         (dict_get (heap (snd (paginate fixture_call fixture_stuck fixture_store 4)) ! 1)
            (cursor_key fixture_call))
   \<and> paginate fixture_call fixture_stuck fixture_store (Suc 4 + 3)
       = (Done, snd (paginate fixture_call fixture_stuck fixture_store 4))
   \<and> length (sent (snd (paginate fixture_call fixture_stuck fixture_store 4))) = 2
   \<and> fst (paginate fixture_call fixture_array fixture_store 2)
       = Extracting 1 [PStr ''B''] (PList [PInt 1])
   \<and> cursor_extractor fixture_call (PList [PInt 1]) = Inl AttributeError
   \<and> paginate fixture_call fixture_array fixture_store (Suc 2 + 3)
       = (Failed AttributeError, snd (paginate fixture_call fixture_array fixture_store 2))
   \<and> fst (paginate fixture_call fixture_server [[''limit'' \<mapsto> PStr ''25'']] 2)
       = Extracting 1 [PStr ''B''] fixture_page1
   \<and> ramp_up fixture_call (PStr ''25'') = Inl TypeError
   \<and> fst (paginate fixture_call fixture_server [[''limit'' \<mapsto> PStr ''25'']] (Suc 2 + 3))
       = Failed TypeError
   \<and> sent (snd (paginate fixture_call fixture_server [[''limit'' \<mapsto> PStr ''25'']] (Suc 2 + 3)))
       = sent (snd (paginate fixture_call fixture_server [[''limit'' \<mapsto> PStr ''25'']] 2))"
proof -
  let ?w2 = "snd (paginate fixture_call fixture_server fixture_store 2)"
  let ?w4 = "snd (paginate fixture_call fixture_stuck fixture_store 4)"
  let ?wa = "snd (paginate fixture_call fixture_array fixture_store 2)"
  let ?wr = "snd (paginate fixture_call fixture_server [[''limit'' \<mapsto> PStr ''25'']] 2)"
  have r2: "fst (paginate fixture_call fixture_server fixture_store 2)
       = Extracting 1 [PStr ''B''] fixture_page1"
    by (simp add: paginate_def eval_nat_numeral fixture_defs)
  then have c2: "paginate fixture_call fixture_server fixture_store 2
       = (Extracting 1 [PStr ''B''] fixture_page1, ?w2)"
    by (metis prod.collapse)
  have ex: "cursor_extractor fixture_call fixture_page1 = Inr (PStr ''C1'')"
    by (simp add: fixture_defs)
  have da: "py_get fixture_page1 ''data'' (PList []) = Inr (PList [PDict [(''id'', PStr ''1'')]])"
    by (simp add: fixture_defs)
  have tr: "truthy (PList [PDict [(''id'', PStr ''1'')]]) \<and> truthy (PStr ''C1'')"
    by simp
  have ne: "\<not> py_eq (PStr ''C1'') (dict_get (heap ?w2 ! 1) (cursor_key fixture_call))"
    by (simp add: paginate_def eval_nat_numeral fixture_defs)
  have ok: "\<forall>l. ((heap ?w2 ! 1)(cursor_key fixture_call \<mapsto> PStr ''C1'')) ''limit'' = Some l
      \<longrightarrow> (\<exists>l'. ramp_up fixture_call l = Inr l')"
    by (simp add: paginate_def eval_nat_numeral fixture_defs)
  have go: "sent (snd (paginate fixture_call fixture_server fixture_store (Suc 2))) = sent ?w2
   \<and> length (sent (snd (paginate fixture_call fixture_server fixture_store (Suc (Suc 2)))))
       = Suc (length (sent ?w2))"
    using continuation_test_decides_next_request
      [OF c2, where cursor = "PStr ''C1''" and data = "PList [PDict [(''id'', PStr ''1'')]]"]
      ex da tr ne ok
    by blast
  have r4: "fst (paginate fixture_call fixture_stuck fixture_store 4)
       = Extracting 1 [PStr ''A''] fixture_page1"
    by (simp add: paginate_def eval_nat_numeral fixture_stuck_def fixture_defs)
  then have c4: "paginate fixture_call fixture_stuck fixture_store 4
       = (Extracting 1 [PStr ''A''] fixture_page1, ?w4)"
    by (metis prod.collapse)
  have eq: "py_eq (PStr ''C1'') (dict_get (heap ?w4 ! 1) (cursor_key fixture_call))"
    by (simp add: paginate_def eval_nat_numeral fixture_stuck_def fixture_defs)
  have stop: "paginate fixture_call fixture_stuck fixture_store (Suc 4 + 3) = (Done, ?w4)"
    using continuation_test_decides_next_request
      [OF c4, where cursor = "PStr ''C1''" and data = "PList [PDict [(''id'', PStr ''1'')]]"]
      ex da eq
    by blast
  have len: "length (sent ?w4) = 2"
    by (simp add: paginate_def eval_nat_numeral fixture_stuck_def fixture_defs)
  have ra: "fst (paginate fixture_call fixture_array fixture_store 2)
       = Extracting 1 [PStr ''B''] (PList [PInt 1])"
    by (simp add: paginate_def eval_nat_numeral fixture_array_def fixture_defs)
  then have ca: "paginate fixture_call fixture_array fixture_store 2
       = (Extracting 1 [PStr ''B''] (PList [PInt 1]), ?wa)"
    by (metis prod.collapse)
  have exa: "cursor_extractor fixture_call (PList [PInt 1]) = Inl AttributeError"
    by (simp add: fixture_defs)
  have fa: "paginate fixture_call fixture_array fixture_store (Suc 2 + 3)
       = (Failed AttributeError, ?wa)"
    using continuation_test_decides_next_request [OF ca, where e = AttributeError] exa
    by blast
  have rr: "fst (paginate fixture_call fixture_server [[''limit'' \<mapsto> PStr ''25'']] 2)
       = Extracting 1 [PStr ''B''] fixture_page1"
    by (simp add: paginate_def eval_nat_numeral fixture_defs)
  then have cr: "paginate fixture_call fixture_server [[''limit'' \<mapsto> PStr ''25'']] 2
       = (Extracting 1 [PStr ''B''] fixture_page1, ?wr)"
    by (metis prod.collapse)
  have rp: "ramp_up fixture_call (PStr ''25'') = Inl TypeError"
    by (simp add: fixture_defs)
  have ner: "\<not> py_eq (PStr ''C1'') (dict_get (heap ?wr ! 1) (cursor_key fixture_call))"
    by (simp add: paginate_def eval_nat_numeral fixture_defs)
  have lim: "((heap ?wr ! 1)(cursor_key fixture_call \<mapsto> PStr ''C1'')) ''limit'' = Some (PStr ''25'')"
    by (simp add: paginate_def eval_nat_numeral fixture_defs)
  have fr: "fst (paginate fixture_call fixture_server [[''limit'' \<mapsto> PStr ''25'']] (Suc 2 + 3))
       = Failed TypeError
   \<and> sent (snd (paginate fixture_call fixture_server [[''limit'' \<mapsto> PStr ''25'']] (Suc 2 + 3)))
       = sent ?wr"
    using continuation_test_decides_next_request
      [OF cr, where cursor = "PStr ''C1''" and data = "PList [PDict [(''id'', PStr ''1'')]]"
         and l = "PStr ''25''" and e = TypeError]
      ex da tr ner lim rp
    by blast
  show ?thesis using r2 ex da tr ne go r4 eq stop len ra exa fa rr rp fr by blast
qed

text \<open>
  C7. Whatever response a request receives, a page is yielded with the response's
  status code. If the body does not decode as JSON, no error is raised and the content
  is \<open>{error: <raw response text>}\<close>; if it decodes, the content is the decoded body
  unchanged.
\<close>

theorem undecodable_body_still_yields_page:
  assumes "paginate a srv h n = (Requesting p (t # q), w)"
    and "srv (sent (snd (paginate a srv h (Suc n)))) = Inr r"
  shows "fst (paginate a srv h (Suc n))
           = Extracting p q (case json r of Some v \<Rightarrow> v
                              | None \<Rightarrow> PDict [(''error'', PStr (rtext r))])
       \<and> yielded (snd (paginate a srv h (Suc n)))
           = yielded w @
               [\<lparr>page_content = (case json r of Some v \<Rightarrow> v
                                   | None \<Rightarrow> PDict [(''error'', PStr (rtext r))]),
                 page_status = status_code r, page_endpoint = endpoint a,
                 page_parameters = p\<rparr>]
       \<and> (json r = None \<longrightarrow>
            page_content (last (yielded (snd (paginate a srv h (Suc n)))))
              = PDict [(''error'', PStr (rtext r))])
       \<and> (\<forall>v. json r = Some v \<longrightarrow>
            page_content (last (yielded (snd (paginate a srv h (Suc n))))) = v)
       \<and> page_status (last (yielded (snd (paginate a srv h (Suc n))))) = status_code r"
proof -
  have "p = length h" and "length (heap w) = Suc (length h)"
    using assms(1) by (rule reach_requesting)+
  then have lt: "p < length (heap w)" by simp
  have nx: "paginate a srv h (Suc n) = request_page a srv p (t # q) w"
    by (simp add: paginate_Suc assms(1))
  have s: "sent (snd (paginate a srv h (Suc n)))
           = sent w @ [(endpoint a, (heap w ! p)(''access_token'' \<mapsto> t))]"
    unfolding nx using lt by (rule request_page_Cons(1))
  have "srv (sent w @ [(endpoint a, (heap w ! p)(''access_token'' \<mapsto> t))]) = Inr r"
    using assms(2) by (simp only: s)
  then have "paginate a srv h (Suc n) =
           (Extracting p q (parse_response r),
            w\<lparr>heap := (heap w)[p := (heap w ! p)(''access_token'' \<mapsto> t)],
              sent := sent w @ [(endpoint a, (heap w ! p)(''access_token'' \<mapsto> t))],
              yielded := yielded w @
                [\<lparr>page_content = parse_response r, page_status = status_code r,
                  page_endpoint = endpoint a, page_parameters = p\<rparr>]\<rparr>)"
    unfolding nx using lt by (simp add: request_page_Cons(2))
  then show ?thesis
    by (simp add: parse_response_def)
qed

theorem undecodable_body_still_yields_page_witness:
  "fst (paginate fixture_call fixture_broken fixture_store 1)
       = Requesting 1 [PStr ''A'', PStr ''B'']
   \<and> fixture_broken (sent (snd (paginate fixture_call fixture_broken fixture_store (Suc 1))))
       = Inr \<lparr>status_code = 429, rtext = ''Too Many Requests'', json = None\<rparr>
   \<and> fst (paginate fixture_call fixture_broken fixture_store (Suc 1))
       = Extracting 1 [PStr ''B''] (PDict [(''error'', PStr ''Too Many Requests'')])
   \<and> page_content (last (yielded (snd (paginate fixture_call fixture_broken fixture_store (Suc 1)))))
       = PDict [(''error'', PStr ''Too Many Requests'')]
   \<and> page_status (last (yielded (snd (paginate fixture_call fixture_broken fixture_store (Suc 1)))))
       = 429
   \<and> fst (paginate fixture_call fixture_server fixture_store 1)
       = Requesting 1 [PStr ''A'', PStr ''B'']
   \<and> fixture_server (sent (snd (paginate fixture_call fixture_server fixture_store (Suc 1))))
       = Inr \<lparr>status_code = 200, rtext = [], json = Some fixture_page1\<rparr>
   \<and> page_content (last (yielded (snd (paginate fixture_call fixture_server fixture_store (Suc 1)))))
       = fixture_page1
   \<and> page_status (last (yielded (snd (paginate fixture_call fixture_server fixture_store (Suc 1)))))
       = 200"
proof -
  let ?b1 = "snd (paginate fixture_call fixture_broken fixture_store 1)"
  let ?s1 = "snd (paginate fixture_call fixture_server fixture_store 1)"
  have rb: "fst (paginate fixture_call fixture_broken fixture_store 1)
       = Requesting 1 [PStr ''A'', PStr ''B'']"
    by (simp add: paginate_def fixture_defs)
  then have cb: "paginate fixture_call fixture_broken fixture_store 1
       = (Requesting 1 (PStr ''A'' # [PStr ''B'']), ?b1)"
    by (metis prod.collapse)
  have sb: "fixture_broken (sent (snd (paginate fixture_call fixture_broken fixture_store (Suc 1))))
       = Inr \<lparr>status_code = 429, rtext = ''Too Many Requests'', json = None\<rparr>"
    by (simp add: fixture_broken_def)
  have b: "fst (paginate fixture_call fixture_broken fixture_store (Suc 1))
       = Extracting 1 [PStr ''B''] (PDict [(''error'', PStr ''Too Many Requests'')])
   \<and> page_content (last (yielded (snd (paginate fixture_call fixture_broken fixture_store (Suc 1)))))
       = PDict [(''error'', PStr ''Too Many Requests'')]
   \<and> page_status (last (yielded (snd (paginate fixture_call fixture_broken fixture_store (Suc 1)))))
       = 429"
    using undecodable_body_still_yields_page [OF cb sb] by simp
  have rs: "fst (paginate fixture_call fixture_server fixture_store 1)
       = Requesting 1 [PStr ''A'', PStr ''B'']"
    by (simp add: paginate_def fixture_defs)
  then have cs: "paginate fixture_call fixture_server fixture_store 1
       = (Requesting 1 (PStr ''A'' # [PStr ''B'']), ?s1)"
    by (metis prod.collapse)
  have ss: "fixture_server (sent (snd (paginate fixture_call fixture_server fixture_store (Suc 1))))
       = Inr \<lparr>status_code = 200, rtext = [], json = Some fixture_page1\<rparr>"
    by (simp add: paginate_def fixture_defs)
  have s: "page_content (last (yielded (snd (paginate fixture_call fixture_server fixture_store (Suc 1)))))
       = fixture_page1
   \<and> page_status (last (yielded (snd (paginate fixture_call fixture_server fixture_store (Suc 1)))))
       = 200"
    using undecodable_body_still_yields_page [OF cs ss] by simp
  show ?thesis using rb sb b rs ss s by blast
qed

lemma step_yielded_grows:
  "\<exists>es. yielded (snd (step a srv c)) = yielded (snd c) @ es"
proof -
  obtain g w where c: "c = (g, w)" by (cases c)
  show ?thesis
  proof (cases g)
    case Created
    then show ?thesis by (simp add: c)
  next
    case (Requesting p q)
    then show ?thesis
      by (cases q) (simp_all add: c request_page_def Let_def split: sum.splits)
  next
    case (Extracting p q x)
    then show ?thesis
      by (simp add: c continue_page_def Let_def split: sum.splits option.splits)
  next
    case Done
    then show ?thesis by (simp add: c)
  next
    case (Failed e)
    then show ?thesis by (simp add: c)
  qed
qed

lemma steps_yielded_grow:
  "\<exists>es. yielded (snd ((step a srv ^^ m) c)) = yielded (snd c) @ es"
proof (induction m)
  case 0
  show ?case by simp
next
  case (Suc m)
  then obtain es where es: "yielded (snd ((step a srv ^^ m) c)) = yielded (snd c) @ es"
    by blast
  obtain fs where "yielded (snd (step a srv ((step a srv ^^ m) c)))
      = yielded (snd ((step a srv ^^ m) c)) @ fs"
    using step_yielded_grows by blast
  then show ?case by (simp add: es)
qed

text \<open>
  The envelope's \<^verbatim>\<open>parameters\<close> entry is not a snapshot. In the two-page run the first
  envelope, read when it is yielded, shows the token \<open>A\<close>, no cursor and the limit 25;
  the same envelope read after the second request shows the token \<open>B\<close>, the cursor
  \<open>C1\<close> and the limit 50.
\<close>

theorem envelope_parameters_snapshot_counterexample:
  "hd (yielded (snd (paginate fixture_call fixture_server fixture_store 2)))
     \<in> set (yielded (snd (paginate fixture_call fixture_server fixture_store 2)))
   \<and> hd (yielded (snd (paginate fixture_call fixture_server fixture_store 2)))
     \<in> set (yielded (snd (paginate fixture_call fixture_server fixture_store 4)))
   \<and> seen_parameters (snd (paginate fixture_call fixture_server fixture_store 2))
        (hd (yielded (snd (paginate fixture_call fixture_server fixture_store 2))))
        ''access_token'' = Some (PStr ''A'')
   \<and> seen_parameters (snd (paginate fixture_call fixture_server fixture_store 4))
        (hd (yielded (snd (paginate fixture_call fixture_server fixture_store 2))))
        ''access_token'' = Some (PStr ''B'')
   \<and> seen_parameters (snd (paginate fixture_call fixture_server fixture_store 2))
        (hd (yielded (snd (paginate fixture_call fixture_server fixture_store 2))))
        ''after'' = None
   \<and> seen_parameters (snd (paginate fixture_call fixture_server fixture_store 4))
        (hd (yielded (snd (paginate fixture_call fixture_server fixture_store 2))))
        ''after'' = Some (PStr ''C1'')
   \<and> seen_parameters (snd (paginate fixture_call fixture_server fixture_store 2))
        (hd (yielded (snd (paginate fixture_call fixture_server fixture_store 2))))
        ''limit'' = Some (PInt 25)
   \<and> seen_parameters (snd (paginate fixture_call fixture_server fixture_store 4))
        (hd (yielded (snd (paginate fixture_call fixture_server fixture_store 2))))
        ''limit'' = Some (PInt 50)
   \<and> seen_parameters (snd (paginate fixture_call fixture_server fixture_store 4))
        (hd (yielded (snd (paginate fixture_call fixture_server fixture_store 2))))
      \<noteq> seen_parameters (snd (paginate fixture_call fixture_server fixture_store 2))
        (hd (yielded (snd (paginate fixture_call fixture_server fixture_store 2))))"
proof -
  let ?e = "hd (yielded (snd (paginate fixture_call fixture_server fixture_store 2)))"
  let ?w2 = "snd (paginate fixture_call fixture_server fixture_store 2)"
  let ?w4 = "snd (paginate fixture_call fixture_server fixture_store 4)"
  have m: "?e \<in> set (yielded ?w2) \<and> ?e \<in> set (yielded ?w4)"
    by (simp add: paginate_def eval_nat_numeral fixture_defs)
  have v: "seen_parameters ?w2 ?e ''access_token'' = Some (PStr ''A'')
      \<and> seen_parameters ?w4 ?e ''access_token'' = Some (PStr ''B'')
      \<and> seen_parameters ?w2 ?e ''after'' = None
      \<and> seen_parameters ?w4 ?e ''after'' = Some (PStr ''C1'')
      \<and> seen_parameters ?w2 ?e ''limit'' = Some (PInt 25)
      \<and> seen_parameters ?w4 ?e ''limit'' = Some (PInt 50)"
    by (simp add: seen_parameters_def paginate_def eval_nat_numeral fixture_defs)
  then have "seen_parameters ?w4 ?e ''after'' \<noteq> seen_parameters ?w2 ?e ''after''"
    by simp
  then have "seen_parameters ?w4 ?e \<noteq> seen_parameters ?w2 ?e"
    by metis
  with m v show ?thesis by blast
qed

text \<open>
  C2, as the code has it. Every envelope yielded by \<^verbatim>\<open>paginate\<close> holds under
  \<^verbatim>\<open>parameters\<close> a reference to the engine's one working parameter mapping, the private
  copy made at the start of the run. When an envelope is yielded, that mapping is exactly
  the one the request was sent with. The envelope itself is never changed afterwards: it
  stays in the sequence of yielded envelopes with the same content, status, endpoint and
  reference. What is read under its \<^verbatim>\<open>parameters\<close> at any later time is the engine's
  current mapping, with whatever later cycles have written to it.
\<close>

theorem envelope_parameters_live:
  "(\<forall>e\<in>set (yielded (snd (paginate a srv h n))).
       e \<in> set (yielded (snd (paginate a srv h (n + m))))
       \<and> page_parameters e = length h
       \<and> seen_parameters (snd (paginate a srv h (n + m))) e
           = heap (snd (paginate a srv h (n + m))) ! length h)
   \<and> take (length (yielded (snd (paginate a srv h n)))) (yielded (snd (paginate a srv h (n + m))))
       = yielded (snd (paginate a srv h n))
   \<and> (paginate a srv h n = (Extracting p q c, w) \<longrightarrow>
        p = length h
        \<and> page_content (last (yielded w)) = c
        \<and> seen_parameters w (last (yielded w)) = snd (last (sent w))
        \<and> seen_parameters w (last (yielded w)) = heap w ! p)"
proof -
  obtain es where es: "yielded (snd (paginate a srv h (n + m)))
      = yielded (snd (paginate a srv h n)) @ es"
    using steps_yielded_grow [where a = a and srv = srv and m = m and c = "paginate a srv h n"]
    by (auto simp: paginate_add)
  have 1: "\<forall>e\<in>set (yielded (snd (paginate a srv h n))).
       e \<in> set (yielded (snd (paginate a srv h (n + m))))
       \<and> page_parameters e = length h
       \<and> seen_parameters (snd (paginate a srv h (n + m))) e
           = heap (snd (paginate a srv h (n + m))) ! length h"
    by (simp add: es reach_envelopes seen_parameters_def)
  have 2: "take (length (yielded (snd (paginate a srv h n))))
        (yielded (snd (paginate a srv h (n + m)))) = yielded (snd (paginate a srv h n))"
    by (simp add: es)
  have 3: "paginate a srv h n = (Extracting p q c, w) \<longrightarrow>
        p = length h
        \<and> page_content (last (yielded w)) = c
        \<and> seen_parameters w (last (yielded w)) = snd (last (sent w))
        \<and> seen_parameters w (last (yielded w)) = heap w ! p"
  proof
    assume c: "paginate a srv h n = (Extracting p q c, w)"
    have p: "p = length h" using c by (rule reach_extracting)
    have y: "yielded w \<noteq> []" using c by (rule reach_extracting)
    have l: "snd (last (sent w)) = heap w ! p" using c by (rule reach_extracting)
    have pc: "page_content (last (yielded w)) = c" using c by (rule reach_extracting)
    have "last (yielded w) \<in> set (yielded (snd (paginate a srv h n)))"
      using y by (simp add: c)
    then have "page_parameters (last (yielded w)) = length h"
      by (simp add: reach_envelopes)
    then show "p = length h
        \<and> page_content (last (yielded w)) = c
        \<and> seen_parameters w (last (yielded w)) = snd (last (sent w))
        \<and> seen_parameters w (last (yielded w)) = heap w ! p"
      by (simp add: p pc l seen_parameters_def)
  qed
  from 1 2 3 show ?thesis by blast
qed

theorem envelope_parameters_live_witness:
  "fst (paginate fixture_call fixture_server fixture_store 2)
     = Extracting 1 [PStr ''B''] fixture_page1
   \<and> yielded (snd (paginate fixture_call fixture_server fixture_store 2)) \<noteq> []
   \<and> hd (yielded (snd (paginate fixture_call fixture_server fixture_store 2)))
       \<in> set (yielded (snd (paginate fixture_call fixture_server fixture_store (2 + 2))))
   \<and> page_parameters (hd (yielded (snd (paginate fixture_call fixture_server fixture_store 2))))
       = length fixture_store
   \<and> seen_parameters (snd (paginate fixture_call fixture_server fixture_store (2 + 2)))
        (hd (yielded (snd (paginate fixture_call fixture_server fixture_store 2))))
       = heap (snd (paginate fixture_call fixture_server fixture_store (2 + 2))) ! length fixture_store
   \<and> seen_parameters (snd (paginate fixture_call fixture_server fixture_store 2))
        (last (yielded (snd (paginate fixture_call fixture_server fixture_store 2))))
       = snd (last (sent (snd (paginate fixture_call fixture_server fixture_store 2))))
   \<and> snd (last (sent (snd (paginate fixture_call fixture_server fixture_store 2)))) ''access_token''
       = Some (PStr ''A'')"
proof -
  let ?w2 = "snd (paginate fixture_call fixture_server fixture_store 2)"
  have r2: "fst (paginate fixture_call fixture_server fixture_store 2)
     = Extracting 1 [PStr ''B''] fixture_page1"
    by (simp add: paginate_def eval_nat_numeral fixture_defs)
  then have c2: "paginate fixture_call fixture_server fixture_store 2
     = (Extracting 1 [PStr ''B''] fixture_page1, ?w2)"
    by (metis prod.collapse)
  have y: "yielded ?w2 \<noteq> []"
    by (simp add: paginate_def eval_nat_numeral fixture_defs)
  then have hd: "hd (yielded ?w2) \<in> set (yielded ?w2)" by simp
  have t: "snd (last (sent ?w2)) ''access_token'' = Some (PStr ''A'')"
    by (simp add: paginate_def eval_nat_numeral fixture_defs)
  note th = envelope_parameters_live
    [where a = fixture_call and srv = fixture_server and h = fixture_store and n = 2 and m = 2
       and p = 1 and q = "[PStr ''B'']" and c = fixture_page1 and w = ?w2]
  from th hd have a: "hd (yielded ?w2)
       \<in> set (yielded (snd (paginate fixture_call fixture_server fixture_store (2 + 2))))
     \<and> page_parameters (hd (yielded ?w2)) = length fixture_store
     \<and> seen_parameters (snd (paginate fixture_call fixture_server fixture_store (2 + 2)))
          (hd (yielded ?w2))
       = heap (snd (paginate fixture_call fixture_server fixture_store (2 + 2))) ! length fixture_store"
    by blast
  from th c2 have b: "seen_parameters ?w2 (last (yielded ?w2)) = snd (last (sent ?w2))"
    by blast
  show ?thesis using r2 y a b t by blast
qed

section \<open>The two-page run, end to end\<close>

lemma fixture_is_paginate_cursors:
  "paginate_cursors ''https://graph/1/likes'' 0 [PStr ''A'', PStr ''B'']
     (geometric_ramp_up_value 2 3000) = paginate fixture_call"
  by (simp add: paginate_cursors_def fixture_call_def)

lemma fixture_two_pages:
  "fst (paginate fixture_call fixture_server fixture_store 5) = Done"
  "map page_content (yielded (snd (paginate fixture_call fixture_server fixture_store 5)))
     = [fixture_page1, fixture_page2]"
  "length (sent (snd (paginate fixture_call fixture_server fixture_store (5 + m)))) = 2"
proof -
  have e: "paginate fixture_call fixture_server fixture_store (Suc 4) =
      (Done, snd (paginate fixture_call fixture_server fixture_store (Suc 4)))"
    by (simp add: paginate_def eval_nat_numeral fixture_defs)
  show "fst (paginate fixture_call fixture_server fixture_store 5) = Done"
    by (simp add: paginate_def eval_nat_numeral fixture_defs)
  show "map page_content (yielded (snd (paginate fixture_call fixture_server fixture_store 5)))
     = [fixture_page1, fixture_page2]"
    by (simp add: paginate_def eval_nat_numeral fixture_defs)
  have "paginate fixture_call fixture_server fixture_store (Suc 4 + m)
      = (Done, snd (paginate fixture_call fixture_server fixture_store (Suc 4)))"
    using e by (rule stays_after) simp
  moreover have "length (sent (snd (paginate fixture_call fixture_server fixture_store (Suc 4)))) = 2"
    by (simp add: paginate_def eval_nat_numeral fixture_defs)
  ultimately show
    "length (sent (snd (paginate fixture_call fixture_server fixture_store (5 + m)))) = 2"
    by (simp add: eval_nat_numeral)
qed

end
